theory Spec2Isabelle
  imports Main
begin

section \<open>Strings\<close>

text \<open>
  Source strings are modelled as \<^typ>\<open>string\<close>, one \<^typ>\<open>char\<close> per code unit, which
  covers the code units below 256. White space is what \<^verbatim>\<open>\s\<close> and \<^verbatim>\<open>trim\<close>
  recognise in that range (tab, line feed, vertical tab, form feed, carriage return,
  space, no-break space); \<^verbatim>\<open>\d\<close> and \<^verbatim>\<open>\w\<close> are ASCII classes.
\<close>

definition isSpace :: "char \<Rightarrow> bool" where
  "isSpace c = (c \<in> set [CHR 0x09, CHR 0x0A, CHR 0x0B, CHR 0x0C, CHR 0x0D, CHR '' '', CHR 0xA0])"

definition isUpper :: "char \<Rightarrow> bool" where
  "isUpper c = (65 \<le> (of_char c :: nat) \<and> (of_char c :: nat) \<le> 90)"

definition isLower :: "char \<Rightarrow> bool" where
  "isLower c = (97 \<le> (of_char c :: nat) \<and> (of_char c :: nat) \<le> 122)"

definition isDigit :: "char \<Rightarrow> bool" where
  "isDigit c = (48 \<le> (of_char c :: nat) \<and> (of_char c :: nat) \<le> 57)"

definition isWord :: "char \<Rightarrow> bool" where
  "isWord c = (isUpper c \<or> isLower c \<or> isDigit c \<or> c = CHR ''_'')"

text \<open>
  The lower-case letters of the range with an upper-case partner in the range: a to z
  and the accented letters 0xE0 to 0xFE except the division sign 0xF7.
\<close>

definition isLatinLower :: "char \<Rightarrow> bool" where
  "isLatinLower c = (224 \<le> (of_char c :: nat) \<and> (of_char c :: nat) \<le> 254 \<and> (of_char c :: nat) \<noteq> 247)"

text \<open>
  \<^verbatim>\<open>toUpperCase\<close>: sharp s (0xDF) becomes SS; the upper-case forms of the micro sign
  (0xB5) and of y with diaeresis (0xFF) lie outside the range, and these two characters
  are left as they are (neither form is a letter A to Z, a digit or white space).
\<close>

definition upperChar :: "char \<Rightarrow> char" where
  "upperChar c = (if isLower c \<or> isLatinLower c then char_of (of_char c - (32::nat)) else c)"

definition upperUnits :: "char \<Rightarrow> string" where
  "upperUnits c = (if c = CHR 0xDF then ''SS'' else [upperChar c])"

definition toUpperCase :: "string \<Rightarrow> string" where
  "toUpperCase s = concat (map upperUnits s)"

definition trim :: "string \<Rightarrow> string" where
  "trim s = rev (dropWhile isSpace (rev (dropWhile isSpace s)))"

text \<open>\<^verbatim>\<open>replace(/\s+/g, " ")\<close>: every maximal run of white space becomes one space.\<close>

fun collapseRun :: "bool \<Rightarrow> string \<Rightarrow> string" where
  "collapseRun inRun [] = []"
| "collapseRun inRun (c # cs) =
     (if isSpace c then (if inRun then collapseRun True cs else CHR '' '' # collapseRun True cs)
      else c # collapseRun False cs)"

definition collapseSpaces :: "string \<Rightarrow> string" where
  "collapseSpaces s = collapseRun False s"

text \<open>
  Matching under the \<^verbatim>\<open>i\<close> flag compares characters after mapping each to its
  one-character upper-case form.
\<close>

definition prefixCI :: "string \<Rightarrow> string \<Rightarrow> bool" where
  "prefixCI p s = (length p \<le> length s \<and> map upperChar (take (length p) s) = map upperChar p)"

fun containsCI :: "string \<Rightarrow> string \<Rightarrow> bool" where
  "containsCI p [] = (p = [])"
| "containsCI p (c # cs) = (prefixCI p (c # cs) \<or> containsCI p cs)"

text \<open>\<^verbatim>\<open>s.includes(p)\<close>.\<close>

fun includesStr :: "string \<Rightarrow> string \<Rightarrow> bool" where
  "includesStr p [] = (p = [])"
| "includesStr p (c # cs) = (take (length p) (c # cs) = p \<or> includesStr p cs)"

section \<open>Assignment resolver\<close>

text \<open>\<^verbatim>\<open>[...new Set(xs)]\<close>: a set keeps the first occurrence of each element, in insertion order.\<close>

definition setAdd :: "'a list \<Rightarrow> 'a \<Rightarrow> 'a list" where
  "setAdd acc x = (if x \<in> set acc then acc else acc @ [x])"

definition uniqueList :: "'a list \<Rightarrow> 'a list" where
  "uniqueList xs = foldl setAdd [] xs"

definition normalizeInstructionCode :: "string \<Rightarrow> string" where
  "normalizeInstructionCode raw =
     (if raw = [] then []
      else filter (\<lambda>c. isUpper c \<or> isDigit c) (toUpperCase (trim raw)))"

definition normalizeClassGroupName :: "string \<Rightarrow> string" where
  "normalizeClassGroupName raw =
     (if raw = [] then [] else collapseSpaces (toUpperCase (trim raw)))"

record assignment =
  courseCode :: string
  classGroupName :: string
  instructionCode :: string
  lecturerId :: string

record lecturerLite =
  lite_id :: string
  lite_name :: string

text \<open>
  The body of the loop of \<^verbatim>\<open>resolveLecturersForEntry\<close> up to the comparison with
  \<^verbatim>\<open>maxScore\<close>: \<open>None\<close> is a \<^verbatim>\<open>continue\<close> (the row is rejected), \<open>Some s\<close> the
  score reached.
\<close>

definition scoreRow :: "string \<Rightarrow> string \<Rightarrow> string \<Rightarrow> assignment \<Rightarrow> int option" where
  "scoreRow qCourse qClass qInstr a =
     (if courseCode a \<noteq> qCourse then None
      else
        let assignmentClass = normalizeClassGroupName (classGroupName a) in
        if assignmentClass \<noteq> [] \<and> assignmentClass \<noteq> qClass then None
        else
          let score = (if assignmentClass \<noteq> [] then 2 else 0);
              assignmentInstruction = normalizeInstructionCode (instructionCode a)
          in
            if assignmentInstruction \<noteq> [] \<and> assignmentInstruction \<noteq> qInstr then None
            else Some (if assignmentInstruction \<noteq> [] then score + 1 else score))"

definition resolveStep ::
  "string \<Rightarrow> string \<Rightarrow> string \<Rightarrow> int \<times> string list \<Rightarrow> assignment \<Rightarrow> int \<times> string list" where
  "resolveStep qCourse qClass qInstr st a =
     (case scoreRow qCourse qClass qInstr a of
        None \<Rightarrow> st
      | Some score \<Rightarrow>
          if score > fst st then (score, [lecturerId a])
          else if score = fst st then (fst st, snd st @ [lecturerId a])
          else st)"

definition resolveLecturersForEntry ::
  "string \<Rightarrow> string \<Rightarrow> string \<Rightarrow> assignment list \<Rightarrow> (string \<rightharpoonup> string) \<Rightarrow> lecturerLite list" where
  "resolveLecturersForEntry qCourse qClass qInstr assignments lecturerNameMap =
     (let matched = snd (foldl (resolveStep qCourse qClass qInstr) (-1, []) assignments);
          uniqueIds = uniqueList matched
      in map (\<lambda>i. \<lparr>lite_id = i,
                     lite_name = (case lecturerNameMap i of Some n \<Rightarrow> n | None \<Rightarrow> i)\<rparr>) uniqueIds)"

text \<open>
  The scoring rule in the words of the specification: a non-wildcard class group that
  differs from the query's rejects the row, an equal one adds 2; the same for the
  instruction code, adding 1.
\<close>

definition specScore :: "string \<Rightarrow> string \<Rightarrow> assignment \<Rightarrow> int option" where
  "specScore qClass qInstr a =
     (let cg = normalizeClassGroupName (classGroupName a);
          ic = normalizeInstructionCode (instructionCode a)
      in if (cg \<noteq> [] \<and> cg \<noteq> qClass) \<or> (ic \<noteq> [] \<and> ic \<noteq> qInstr) then None
         else Some ((if cg \<noteq> [] then 2 else 0) + (if ic \<noteq> [] then 1 else 0)))"

text \<open>The running maximum of the scores of the rows that are not rejected.\<close>

definition bestScore :: "string \<Rightarrow> string \<Rightarrow> string \<Rightarrow> int \<Rightarrow> assignment list \<Rightarrow> int" where
  "bestScore c g i m rows =
     foldl (\<lambda>m a. case scoreRow c g i a of None \<Rightarrow> m | Some s \<Rightarrow> max m s) m rows"

text \<open>Four rows of one course: two tied on the class group, one wildcard, one other group.\<close>

definition rowsTie :: "assignment list" where
  "rowsTie =
    [\<lparr>courseCode = ''X'', classGroupName = ''IT 01'', instructionCode = '''', lecturerId = ''L1''\<rparr>,
     \<lparr>courseCode = ''X'', classGroupName = ''IT 01'', instructionCode = '''', lecturerId = ''L2''\<rparr>,
     \<lparr>courseCode = ''X'', classGroupName = '''', instructionCode = '''', lecturerId = ''L3''\<rparr>,
     \<lparr>courseCode = ''X'', classGroupName = ''IT 02'', instructionCode = '''', lecturerId = ''L4''\<rparr>]"

section \<open>Schedule query: conflicts\<close>

datatype DayOfWeek = MON | TUE | WED | THU | FRI | SAT | SUN

text \<open>The enum's string value, as a template literal prints it.\<close>

fun dayName :: "DayOfWeek \<Rightarrow> string" where
  "dayName MON = ''MON''"
| "dayName TUE = ''TUE''"
| "dayName WED = ''WED''"
| "dayName THU = ''THU''"
| "dayName FRI = ''FRI''"
| "dayName SAT = ''SAT''"
| "dayName SUN = ''SUN''"

record courseInfo =
  code :: string
  nameEn :: "string option"
  nameVi :: "string option"

record portalEntry =
  entry_id :: string
  dayOfWeek :: DayOfWeek
  dayLabel :: string
  session :: string
  startTime :: "string option"
  room :: "string option"
  rawTime :: "string option"
  course :: courseInfo
  entryInstructionCode :: "string option"
  lecturers :: "lecturerLite list"

record conflict =
  conflictDay :: DayOfWeek
  conflictStart :: string
  courses :: "string list"

definition conflictKey :: "DayOfWeek \<Rightarrow> string \<Rightarrow> string" where
  "conflictKey d t = dayName d @ '':'' @ t"

text \<open>
  \<^verbatim>\<open>grouped\<close> is a \<^verbatim>\<open>Map\<close>, which iterates in insertion order: an association list
  with one pair per key, new keys at the end, the value of a known key updated in place.
\<close>

definition pushCourse :: "string \<Rightarrow> string \<Rightarrow> string \<times> conflict \<Rightarrow> string \<times> conflict" where
  "pushCourse key c kv =
     (if fst kv = key then (fst kv, (snd kv)\<lparr>courses := courses (snd kv) @ [c]\<rparr>) else kv)"

definition conflictStep :: "(string \<times> conflict) list \<Rightarrow> portalEntry \<Rightarrow> (string \<times> conflict) list" where
  "conflictStep grouped entry =
     (case startTime entry of
        None \<Rightarrow> grouped
      | Some t \<Rightarrow>
          if t = [] then grouped
          else
            let key = conflictKey (dayOfWeek entry) t in
            (case map_of grouped key of
               None \<Rightarrow>
                 grouped @ [(key, \<lparr>conflictDay = dayOfWeek entry, conflictStart = t,
                                    courses = [code (course entry)]\<rparr>)]
             | Some existing \<Rightarrow>
                 if code (course entry) \<in> set (courses existing) then grouped
                 else map (pushCourse key (code (course entry))) grouped))"

definition computeConflicts :: "portalEntry list \<Rightarrow> conflict list" where
  "computeConflicts entries =
     filter (\<lambda>c. length (courses c) > 1) (map snd (foldl conflictStep [] entries))"

text \<open>The course codes of the entries in one slot (a day and a start time).\<close>

definition slotCodes :: "portalEntry list \<Rightarrow> DayOfWeek \<Rightarrow> string \<Rightarrow> string set" where
  "slotCodes es d t =
     {code (course e) | e. e \<in> set es \<and> dayOfWeek e = d \<and> startTime e = Some t}"

definition mkEntry :: "DayOfWeek \<Rightarrow> string \<Rightarrow> string \<Rightarrow> portalEntry" where
  "mkEntry d t c =
     \<lparr>entry_id = ''e'', dayOfWeek = d, dayLabel = ''Mon'', session = ''MORNING'',
      startTime = Some t, room = None, rawTime = None,
      course = \<lparr>code = c, nameEn = None, nameVi = None\<rparr>,
      entryInstructionCode = None, lecturers = []\<rparr>"

text \<open>What one entry with a start time does to the value stored under its key.\<close>

definition bumpConflict :: "portalEntry \<Rightarrow> string \<Rightarrow> conflict option \<Rightarrow> conflict" where
  "bumpConflict e t old =
     (case old of
        None \<Rightarrow> \<lparr>conflictDay = dayOfWeek e, conflictStart = t, courses = [code (course e)]\<rparr>
      | Some ex \<Rightarrow> if code (course e) \<in> set (courses ex) then ex
                   else ex\<lparr>courses := courses ex @ [code (course e)]\<rparr>)"

text \<open>The loop invariant of \<^verbatim>\<open>computeConflicts\<close>, on the map read as a function.\<close>

definition groupedInv :: "portalEntry list \<Rightarrow> (string \<rightharpoonup> conflict) \<Rightarrow> bool" where
  "groupedInv es m \<longleftrightarrow>
     (\<forall>k c. m k = Some c \<longrightarrow>
        k = conflictKey (conflictDay c) (conflictStart c) \<and> conflictStart c \<noteq> [] \<and>
        distinct (courses c) \<and>
        set (courses c) = slotCodes es (conflictDay c) (conflictStart c)) \<and>
     (\<forall>e \<in> set es. \<forall>t. startTime e = Some t \<and> t \<noteq> [] \<longrightarrow>
        m (conflictKey (dayOfWeek e) t) \<noteq> None)"

section \<open>Schedule query: lecturers of an entry\<close>

record lecturerOverride =
  ov_courseCode :: string
  ov_lecturerId :: string
  ov_enabled :: bool

text \<open>
  A \<^verbatim>\<open>Set<string>\<close> is a list without duplicates in insertion order; \<^verbatim>\<open>delete\<close> removes
  the element. \<^verbatim>\<open>map.get(k) ?? new Set()\<close> reads a missing key as the empty set.
\<close>

definition getRow :: "(string \<rightharpoonup> string list) \<Rightarrow> string \<Rightarrow> string list" where
  "getRow m k = (case m k of Some row \<Rightarrow> row | None \<Rightarrow> [])"

definition seedFallback ::
  "(string \<rightharpoonup> string list) \<Rightarrow> string list \<Rightarrow> (string \<rightharpoonup> string list)" where
  "seedFallback catalogLecturerIdsByCourse selectedCourseCodes =
     foldl (\<lambda>m c. m(c \<mapsto> uniqueList (getRow catalogLecturerIdsByCourse c)))
           Map.empty selectedCourseCodes"

definition overrideStep ::
  "(string \<rightharpoonup> string list) \<Rightarrow> lecturerOverride \<Rightarrow> (string \<rightharpoonup> string list)" where
  "overrideStep m ov =
     (let row = getRow m (ov_courseCode ov);
          row' = (if ov_enabled ov then setAdd row (ov_lecturerId ov)
                  else removeAll (ov_lecturerId ov) row)
      in m(ov_courseCode ov \<mapsto> row'))"

definition fallbackLecturerIdsByCourse ::
  "(string \<rightharpoonup> string list) \<Rightarrow> string list \<Rightarrow> lecturerOverride list \<Rightarrow> (string \<rightharpoonup> string list)" where
  "fallbackLecturerIdsByCourse catalogLecturerIdsByCourse selectedCourseCodes courseLecturerOverrides =
     foldl overrideStep (seedFallback catalogLecturerIdsByCourse selectedCourseCodes)
           courseLecturerOverrides"

definition toLecturerLite :: "(string \<rightharpoonup> string) \<Rightarrow> string \<Rightarrow> lecturerLite" where
  "toLecturerLite lecturerNameMap i =
     \<lparr>lite_id = i, lite_name = (case lecturerNameMap i of Some n \<Rightarrow> n | None \<Rightarrow> i)\<rparr>"

text \<open>
  \<^verbatim>\<open>sort((a, b) => a.name.localeCompare(b.name))\<close>: the collation order is a parameter
  \<open>le\<close> (\<open>le x y\<close> when \<^verbatim>\<open>x.localeCompare(y) <= 0\<close>); the sort is stable.
\<close>

fun insertByName :: "(string \<Rightarrow> string \<Rightarrow> bool) \<Rightarrow> lecturerLite \<Rightarrow> lecturerLite list \<Rightarrow> lecturerLite list" where
  "insertByName le x [] = [x]"
| "insertByName le x (y # ys) =
     (if le (lite_name x) (lite_name y) then x # y # ys else y # insertByName le x ys)"

definition sortByName :: "(string \<Rightarrow> string \<Rightarrow> bool) \<Rightarrow> lecturerLite list \<Rightarrow> lecturerLite list" where
  "sortByName le xs = foldr (insertByName le) xs []"

text \<open>
  The lecturers that \<^verbatim>\<open>getPortalData\<close> attaches to one schedule entry of course
  \<open>entryCourse\<close>: the scoped assignments when they give any lecturer, the fallback row
  of the course otherwise.
\<close>

definition entryLecturers ::
  "(string \<Rightarrow> string \<Rightarrow> bool) \<Rightarrow> (string \<rightharpoonup> string) \<Rightarrow> string \<Rightarrow> string \<Rightarrow> string \<Rightarrow>
   assignment list \<Rightarrow> (string \<rightharpoonup> string list) \<Rightarrow> lecturerLite list" where
  "entryLecturers le lecturerNameMap entryCourse selectedClassGroupUpper instrCode
      teachingAssignments fallbackByCourse =
     (let lecturers = resolveLecturersForEntry entryCourse selectedClassGroupUpper instrCode
                        teachingAssignments lecturerNameMap
      in if length lecturers > 0 then lecturers
         else sortByName le (map (toLecturerLite lecturerNameMap)
                (uniqueList (getRow fallbackByCourse entryCourse))))"

text \<open>The last override row stored for a course and a lecturer, if any.\<close>

definition lastOverride :: "lecturerOverride list \<Rightarrow> string \<Rightarrow> string \<Rightarrow> lecturerOverride option" where
  "lastOverride ovs c l =
     (let hits = filter (\<lambda>ov. ov_courseCode ov = c \<and> ov_lecturerId ov = l) ovs
      in if hits = [] then None else Some (last hits))"

text \<open>The fallback tier in the words of the specification.\<close>

definition specFallback ::
  "(string \<rightharpoonup> string list) \<Rightarrow> string list \<Rightarrow> lecturerOverride list \<Rightarrow> string \<Rightarrow> string set" where
  "specFallback catalogIds selected ovs c =
     {l. case lastOverride ovs c l of
           Some ov \<Rightarrow> ov_enabled ov
         | None \<Rightarrow> c \<in> set selected \<and> l \<in> set (getRow catalogIds c)}"

text \<open>One assignment of course X scoped to an instruction code, and the catalog default of X.\<close>

definition rowsScoped :: "assignment list" where
  "rowsScoped =
    [\<lparr>courseCode = ''X'', classGroupName = '''', instructionCode = ''IHA1'', lecturerId = ''L1''\<rparr>]"

definition catalogX :: "string \<rightharpoonup> string list" where
  "catalogX = [''X'' \<mapsto> [''D1'']]"

definition leqName :: "string \<Rightarrow> string \<Rightarrow> bool" where
  "leqName a b = (length a \<le> length b)"

text \<open>The test of \<^verbatim>\<open>getPortalData\<close> that sends an entry to the fallback tier.\<close>

definition usesFallbackTier ::
  "string \<Rightarrow> string \<Rightarrow> string \<Rightarrow> assignment list \<Rightarrow> (string \<rightharpoonup> string) \<Rightarrow> bool" where
  "usesFallbackTier c g i rows names =
     (\<not> length (resolveLecturersForEntry c g i rows names) > 0)"

section \<open>Workbook parser\<close>

datatype SessionPeriod = MORNING | AFTERNOON | EVENING | UNKNOWN

record parsedCell =
  pc_classHint :: "string option"
  pc_courseCode :: string
  pc_room :: "string option"
  pc_rawTime :: "string option"
  pc_startTime :: "string option"

record parsedEvent =
  ev_classGroupName :: string
  ev_dayOfWeek :: DayOfWeek
  ev_session :: SessionPeriod
  ev_startTime :: "string option"
  ev_rawTime :: "string option"
  ev_room :: "string option"
  ev_courseCode :: string
  ev_sourceSheet :: string
  ev_sourceRow :: nat

text \<open>\<^verbatim>\<open>DAY_COLUMN_MAP\<close>, in the order \<^verbatim>\<open>Object.entries\<close> lists its integer keys.\<close>

definition DAY_COLUMN_MAP :: "(nat \<times> DayOfWeek) list" where
  "DAY_COLUMN_MAP = [(2, MON), (3, TUE), (4, WED), (5, THU), (6, FRI), (7, SAT)]"

text \<open>A cell is its text; a cell that the row does not have reads as the empty text.\<close>

definition cellAt :: "string list \<Rightarrow> nat \<Rightarrow> string" where
  "cellAt row i = (if i < length row then row ! i else [])"

definition cleanCell :: "string \<Rightarrow> string" where
  "cleanCell v = trim (map (\<lambda>c. if c = CHR 0xA0 then CHR '' '' else c) v)"

text \<open>
  \<^verbatim>\<open>/^([A-Z]{2,4})(\d{3,4})$/\<close>: letters and digits are disjoint classes, so the
  letter group is the whole run of leading letters and the rest must be the digits.
\<close>

definition matchCourseCode :: "nat \<Rightarrow> string \<Rightarrow> (string \<times> string) option" where
  "matchCourseCode maxLetters compact =
     (let letters = takeWhile isUpper compact;
          rest = dropWhile isUpper compact
      in if 2 \<le> length letters \<and> length letters \<le> maxLetters \<and>
            3 \<le> length rest \<and> length rest \<le> 4 \<and> list_all isDigit rest
         then Some (letters, rest) else None)"

definition normalizeCourseCode :: "string \<Rightarrow> string option" where
  "normalizeCourseCode raw =
     (let text = collapseSpaces (toUpperCase (cleanCell raw)) in
      if text = [] then None
      else
        let compact = filter (\<lambda>c. \<not> isSpace c) text in
        case matchCourseCode 4 compact of
          None \<Rightarrow> None
        | Some (letters, digits) \<Rightarrow> Some (letters @ '' '' @ digits))"

text \<open>
  \<^verbatim>\<open>/IT\s*0?(\d{1,2})/\<close> at the start of a text: the match and its group. The
  optional zero is taken when a digit follows it, and given back otherwise.
\<close>

definition matchITAt :: "bool \<Rightarrow> string \<Rightarrow> (string \<times> string) option" where
  "matchITAt ignoreCase s =
     (if (if ignoreCase then prefixCI ''IT'' s else take 2 s = ''IT'') then
        let spaces = takeWhile isSpace (drop 2 s);
            r = dropWhile isSpace (drop 2 s)
        in case r of
             [] \<Rightarrow> None
           | c1 # r1 \<Rightarrow>
               if c1 = CHR ''0'' \<and> r1 \<noteq> [] \<and> isDigit (hd r1) then
                 let cap = take 2 (takeWhile isDigit r1)
                 in Some (take 2 s @ spaces @ [c1] @ cap, cap)
               else if isDigit c1 then
                 let cap = take 2 (takeWhile isDigit r)
                 in Some (take 2 s @ spaces @ cap, cap)
               else None
      else None)"

text \<open>The leftmost match (\<^verbatim>\<open>match\<close>, \<^verbatim>\<open>test\<close>).\<close>

fun findIT :: "bool \<Rightarrow> string \<Rightarrow> (string \<times> string) option" where
  "findIT ignoreCase [] = None"
| "findIT ignoreCase (c # cs) =
     (case matchITAt ignoreCase (c # cs) of
        Some r \<Rightarrow> Some r
      | None \<Rightarrow> findIT ignoreCase cs)"

text \<open>
  \<^verbatim>\<open>matchAll\<close> with the \<^verbatim>\<open>g\<close> flag: the groups of all matches, the search going on
  after the end of each match (\<open>skip\<close> counts the characters of the last match still
  to pass).
\<close>

fun allITfrom :: "nat \<Rightarrow> string \<Rightarrow> string list" where
  "allITfrom skip [] = []"
| "allITfrom skip (c # cs) =
     (if skip > 0 then allITfrom (skip - 1) cs
      else case matchITAt False (c # cs) of
             Some (m, cap) \<Rightarrow> cap # allITfrom (length m - 1) cs
           | None \<Rightarrow> allITfrom 0 cs)"

text \<open>\<^verbatim>\<open>Number.parseInt(digits, 10)\<close> on a text of digits.\<close>

definition parseInt :: "string \<Rightarrow> nat" where
  "parseInt ds = foldl (\<lambda>n c. 10 * n + (of_char c - 48)) 0 ds"

fun showNat :: "nat \<Rightarrow> string" where
  "showNat n =
     (if n < 10 then [char_of (48 + n)]
      else showNat (n div 10) @ [char_of (48 + n mod 10)])"

text \<open>\<^verbatim>\<open>`IT ${String(n).padStart(2, "0")}`\<close>.\<close>

definition groupLabel :: "nat \<Rightarrow> string" where
  "groupLabel n = ''IT '' @ replicate (2 - length (showNat n)) CHR ''0'' @ showNat n"

definition normalizeClassGroup :: "string \<Rightarrow> string option" where
  "normalizeClassGroup raw =
     (case findIT False (toUpperCase raw) of
        None \<Rightarrow> None
      | Some (m, cap) \<Rightarrow> Some (groupLabel (parseInt cap)))"

text \<open>The loop \<^verbatim>\<open>for (current = start; current <= end; current += 1)\<close>.\<close>

function rangeLoop :: "nat \<Rightarrow> nat \<Rightarrow> string list \<Rightarrow> string list" where
  "rangeLoop current end expanded =
     (if current \<le> end then rangeLoop (current + 1) end (expanded @ [groupLabel current])
      else expanded)"
  by pat_completeness auto
termination
  by (relation "measure (\<lambda>(current, end, expanded). end + 1 - current)") auto

definition expandClassGroups :: "string \<Rightarrow> string list" where
  "expandClassGroups label =
     (let numbers = map parseInt (allITfrom 0 (toUpperCase label)) in
      if length numbers = 0 then []
      else if length numbers \<ge> 2 \<and> CHR ''-'' \<in> set label \<and>
              numbers ! 0 < numbers ! 1 \<and> numbers ! 1 - numbers ! 0 \<le> 20
           then rangeLoop (numbers ! 0) (numbers ! 1) []
           else uniqueList (map groupLabel numbers))"

text \<open>
  \<^verbatim>\<open>foldText\<close> decomposes the text (\<^verbatim>\<open>normalize("NFD")\<close>), drops the combining
  marks and lower-cases; it is a parameter \<open>foldText\<close> of the functions that use it.
\<close>

definition getSessionPeriod :: "(string \<Rightarrow> string) \<Rightarrow> string \<Rightarrow> SessionPeriod" where
  "getSessionPeriod foldText label =
     (let normalized = foldText label in
      if includesStr ''sang'' normalized \<or> includesStr ''morning'' normalized then MORNING
      else if includesStr ''chieu'' normalized \<or> includesStr ''afternoon'' normalized then AFTERNOON
      else if includesStr ''toi'' normalized \<or> includesStr ''evening'' normalized then EVENING
      else UNKNOWN)"

text \<open>
  \<^verbatim>\<open>/room|time|s\<acute>ng|chi\<^bold>eu|morning|afternoon/i\<close>: the fourth alternative has a letter
  above the range of the model and matches no text of it.
\<close>

definition looksLikeClassGroupRow :: "string \<Rightarrow> bool" where
  "looksLikeClassGroupRow v =
     (findIT True v \<noteq> None \<and>
      \<not> (containsCI ''room'' v \<or> containsCI ''time'' v \<or>
         containsCI [CHR ''s'', CHR 0xE1, CHR ''n'', CHR ''g''] v \<or>
         containsCI ''morning'' v \<or> containsCI ''afternoon'' v))"

text \<open>\<^verbatim>\<open>split(/\r?\n/)\<close>; the line being read is kept reversed.\<close>

fun splitLinesAcc :: "string \<Rightarrow> string \<Rightarrow> string list" where
  "splitLinesAcc cur [] = [rev cur]"
| "splitLinesAcc cur (c # cs) =
     (if c = CHR 0x0A
      then rev (case cur of [] \<Rightarrow> [] | d # ds \<Rightarrow> if d = CHR 0x0D then ds else d # ds)
             # splitLinesAcc [] cs
      else splitLinesAcc (c # cur) cs)"

definition cellLines :: "string \<Rightarrow> string list" where
  "cellLines cellText = filter (\<lambda>l. l \<noteq> []) (map cleanCell (splitLinesAcc [] cellText))"

text \<open>\<^verbatim>\<open>/\b([01]?\d|2[0-3]):[0-5]\d\b/\<close>, from the colon on and at the start of a text.\<close>

definition timeRest :: "string \<Rightarrow> bool" where
  "timeRest s =
     (case s of
        c1 # c2 # c3 # r \<Rightarrow>
          c1 = CHR '':'' \<and> isDigit c2 \<and> (of_char c2 :: nat) \<le> 53 \<and> isDigit c3 \<and>
          (case r of [] \<Rightarrow> True | c4 # _ \<Rightarrow> \<not> isWord c4)
      | _ \<Rightarrow> False)"

definition matchTimeAt :: "string \<Rightarrow> string option" where
  "matchTimeAt s =
     (case s of
        a # b # r \<Rightarrow>
          if (a = CHR ''0'' \<or> a = CHR ''1'') \<and> isDigit b \<and> timeRest r then Some (take 5 s)
          else if isDigit a \<and> timeRest (b # r) then Some (take 4 s)
          else if a = CHR ''2'' \<and> isDigit b \<and> (of_char b :: nat) \<le> 51 \<and> timeRest r
               then Some (take 5 s)
          else None
      | _ \<Rightarrow> None)"

fun findTime :: "bool \<Rightarrow> string \<Rightarrow> string option" where
  "findTime prevWord [] = None"
| "findTime prevWord (c # cs) =
     (if prevWord then findTime (isWord c) cs
      else case matchTimeAt (c # cs) of
             Some m \<Rightarrow> Some m
           | None \<Rightarrow> findTime (isWord c) cs)"

definition parseScheduleCell :: "string \<Rightarrow> parsedCell option" where
  "parseScheduleCell cellText =
     (let lines = cellLines cellText in
      case lines of
        [] \<Rightarrow> None
      | line0 # others \<Rightarrow>
          (case normalizeCourseCode line0 of
             None \<Rightarrow> None
           | Some code0 \<Rightarrow>
               let room0 = (if length lines > 1 then Some (cleanCell (lines ! 1)) else None);
                   rawTime0 = (if length lines > 2 then Some (cleanCell (lines ! 2)) else None);
                   timeText = (case rawTime0 of Some t \<Rightarrow> t | None \<Rightarrow> cellText);
                   matchedTime = findTime False timeText;
                   matchedClass = findIT True timeText
               in Some \<lparr>pc_classHint =
                           (case matchedClass of
                              Some (m, cap) \<Rightarrow> normalizeClassGroup m
                            | None \<Rightarrow> None),
                         pc_courseCode = code0,
                         pc_room = room0,
                         pc_rawTime = rawTime0,
                         pc_startTime = matchedTime\<rparr>))"

text \<open>
  The body of the loop over the day columns in \<^verbatim>\<open>parseSheet\<close>: the events that
  one cell of a session row adds.
\<close>

definition cellEvents ::
  "string \<Rightarrow> nat \<Rightarrow> SessionPeriod \<Rightarrow> string list \<Rightarrow> string list \<Rightarrow> nat \<times> DayOfWeek \<Rightarrow> parsedEvent list" where
  "cellEvents sheetName rowIndex sess currentGroups row colDay =
     (let cellValue = cleanCell (cellAt row (fst colDay)) in
      if cellValue = [] then []
      else case parseScheduleCell cellValue of
        None \<Rightarrow> []
      | Some parsed \<Rightarrow>
          let targetGroups =
                (case pc_classHint parsed of
                   Some hint \<Rightarrow> (if hint \<noteq> [] then [hint] else currentGroups)
                 | None \<Rightarrow> currentGroups)
          in map (\<lambda>classGroupName.
                    \<lparr>ev_classGroupName = classGroupName,
                     ev_dayOfWeek = snd colDay,
                     ev_session = sess,
                     ev_startTime = pc_startTime parsed,
                     ev_rawTime = pc_rawTime parsed,
                     ev_room = pc_room parsed,
                     ev_courseCode = pc_courseCode parsed,
                     ev_sourceSheet = sheetName,
                     ev_sourceRow = rowIndex + 1\<rparr>) targetGroups)"

text \<open>\<^verbatim>\<open>/tba\s*=|website for registering|contact customer service/i\<close>.\<close>

fun containsTba :: "string \<Rightarrow> bool" where
  "containsTba [] = False"
| "containsTba (c # cs) =
     ((prefixCI ''tba'' (c # cs) \<and>
       (case dropWhile isSpace (drop 3 (c # cs)) of [] \<Rightarrow> False | d # _ \<Rightarrow> d = CHR ''=''))
      \<or> containsTba cs)"

definition isFooter :: "string \<Rightarrow> bool" where
  "isFooter v =
     (containsTba v \<or> containsCI ''website for registering'' v \<or>
      containsCI ''contact customer service'' v)"

text \<open>
  The row scan of \<^verbatim>\<open>parseSheet\<close> from the row after the header (index \<open>rowIndex\<close>) on,
  with the declared class groups and the events so far; a footer row ends it.
\<close>

fun scanRows ::
  "(string \<Rightarrow> string) \<Rightarrow> string \<Rightarrow> nat \<Rightarrow> string list list \<Rightarrow> string list \<Rightarrow> parsedEvent list
   \<Rightarrow> parsedEvent list" where
  "scanRows foldText sheetName rowIndex [] currentGroups events = events"
| "scanRows foldText sheetName rowIndex (row # rows) currentGroups events =
     (let firstColumn = cleanCell (cellAt row 1) in
      if isFooter firstColumn then events
      else if looksLikeClassGroupRow firstColumn
      then scanRows foldText sheetName (rowIndex + 1) rows (expandClassGroups firstColumn) events
      else
        let sess = getSessionPeriod foldText firstColumn in
        if sess = UNKNOWN
        then scanRows foldText sheetName (rowIndex + 1) rows currentGroups events
        else scanRows foldText sheetName (rowIndex + 1) rows currentGroups
               (events @ concat (map (cellEvents sheetName rowIndex sess currentGroups row)
                                     DAY_COLUMN_MAP)))"

text \<open>The numbers of the \<^verbatim>\<open>IT\<close> tokens of a label, in order.\<close>

definition tokenNumbers :: "string \<Rightarrow> nat list" where
  "tokenNumbers label = map parseInt (allITfrom 0 (toUpperCase label))"

text \<open>
  A course code in the words of the specification, for a bound on the number of letters:
  without white space and in upper case, the line is 2 to \<open>maxLetters\<close> letters followed
  by 3 or 4 digits.
\<close>

definition specCourseCode :: "nat \<Rightarrow> string \<Rightarrow> bool" where
  "specCourseCode maxLetters line =
     (let compact = filter (\<lambda>c. \<not> isSpace c) (toUpperCase line) in
      \<exists>k \<in> set [2 ..< maxLetters + 1].
        k \<le> length compact \<and> list_all isUpper (take k compact) \<and>
        (length (drop k compact) = 3 \<or> length (drop k compact) = 4) \<and>
        list_all isDigit (drop k compact))"

text \<open>
  A class-group token in a text, in the words of the specification: the letters
  \<^verbatim>\<open>IT\<close> in either case, white space if any, and a number of one or two digits which
  a zero may precede. \<open>tokenAt\<close> is the number of a token that starts the text,
  \<open>firstToken\<close> that of the leftmost token of the text, \<open>tokenGroup\<close> the name of the
  class group with that number.
\<close>

definition digitValue :: "char \<Rightarrow> nat" where
  "digitValue c = of_char c - 48"

fun decimal :: "string \<Rightarrow> nat" where
  "decimal [] = 0"
| "decimal [a] = digitValue a"
| "decimal (a # b # _) = 10 * digitValue a + digitValue b"

definition tokenAt :: "string \<Rightarrow> nat option" where
  "tokenAt s =
     (case s of
        i # t # r \<Rightarrow>
          if (i = CHR ''I'' \<or> i = CHR ''i'') \<and> (t = CHR ''T'' \<or> t = CHR ''t'') then
            let ds = takeWhile isDigit (dropWhile isSpace r) in
            if ds = [] then None
            else if hd ds = CHR ''0'' \<and> length ds \<ge> 2 then Some (decimal (tl ds))
            else Some (decimal ds)
          else None
      | _ \<Rightarrow> None)"

fun firstToken :: "string \<Rightarrow> nat option" where
  "firstToken [] = None"
| "firstToken (c # cs) = (case tokenAt (c # cs) of Some n \<Rightarrow> Some n | None \<Rightarrow> firstToken cs)"

definition tokenGroup :: "nat \<Rightarrow> string" where
  "tokenGroup n = ''IT '' @ [char_of (48 + n div 10), char_of (48 + n mod 10)]"

text \<open>
  The inline hint of a cell as the claim words it, a token anywhere in the text of the
  cell; and the inline hint on the text that carries it: the third of the non-empty
  lines of the cell, or the whole text of a cell with fewer than three such lines.
\<close>

definition textHint :: "string \<Rightarrow> string option" where
  "textHint cellText = map_option tokenGroup (firstToken cellText)"

definition hintText :: "string \<Rightarrow> string" where
  "hintText cellText =
     (case cellLines cellText of
        line0 # line1 # line2 # _ \<Rightarrow> cleanCell line2
      | _ \<Rightarrow> cellText)"

definition inlineHint :: "string \<Rightarrow> string option" where
  "inlineHint cellText = map_option tokenGroup (firstToken (hintText cellText))"

text \<open>The course code on the first non-empty line of a cell, if it is one.\<close>

definition cellCode :: "string \<Rightarrow> string option" where
  "cellCode cellText =
     (case cellLines cellText of [] \<Rightarrow> None | line0 # _ \<Rightarrow> normalizeCourseCode line0)"

text \<open>
  Session rows for the examples: a cell of three lines with the hint IT 07 on its time
  line, a cell without hint, and a cell with a token on its room line only; and a
  lower-casing function to stand for \<^verbatim>\<open>foldText\<close> on texts without accents.
\<close>

definition rowHint :: "string list" where
  "rowHint = ['''', ''Morning'',
              ''cs 2255'' @ [CHR 0x0A] @ ''Room 1'' @ [CHR 0x0A] @ ''8:00 IT 07'']"

definition rowPlain :: "string list" where
  "rowPlain = ['''', ''Morning'', ''cs 2255'' @ [CHR 0x0A] @ ''Room 1'' @ [CHR 0x0A] @ ''8:00'']"

definition rowRoomToken :: "string list" where
  "rowRoomToken = ['''', ''Morning'', ''cs 2255'' @ [CHR 0x0A] @ ''IT 05'' @ [CHR 0x0A] @ ''8:00'']"

definition asciiLower :: "string \<Rightarrow> string" where
  "asciiLower s = map (\<lambda>c. if isUpper c then char_of (of_char c + (32::nat)) else c) s"

section \<open>Entity normalizer\<close>

text \<open>
  The tables of the store that the import writes, as lists of rows in storage order.
  Generated ids come from a counter, so an id is never falsy; time stamp columns
  (\<^verbatim>\<open>createdAt\<close>, \<^verbatim>\<open>updatedAt\<close>, \<^verbatim>\<open>startedAt\<close>, \<^verbatim>\<open>finishedAt\<close>) are left out; a date is its
  time value.
\<close>

record semesterRow =
  sem_id :: nat
  sem_key :: string
  sem_label :: string
  sem_startDate :: "int option"
  sem_endDate :: "int option"
  sem_sourceFile :: string

record cohortRow =
  coh_id :: nat
  coh_code :: string
  coh_semesterId :: nat

record classGroupRow =
  cg_id :: nat
  cg_name :: string
  cg_cohortId :: nat

record courseRow =
  crs_id :: nat
  crs_code :: string
  crs_nameEn :: "string option"
  crs_nameVi :: "string option"
  crs_credits :: "int option"
  crs_prerequisite :: "string option"

record entryData =
  ed_semesterId :: nat
  ed_classGroupId :: nat
  ed_courseId :: nat
  ed_dayOfWeek :: DayOfWeek
  ed_session :: SessionPeriod
  ed_startTime :: "string option"
  ed_rawTime :: "string option"
  ed_room :: "string option"
  ed_sourceSheet :: string
  ed_sourceRow :: nat

record entryRow =
  se_id :: nat
  se_data :: entryData

record importRunRow =
  run_id :: nat
  run_semesterId :: "nat option"
  run_sourceFile :: string
  run_status :: string
  run_note :: string

record db =
  semesters :: "semesterRow list"
  cohorts :: "cohortRow list"
  classGroups :: "classGroupRow list"
  courseRows :: "courseRow list"
  scheduleEntries :: "entryRow list"
  importRuns :: "importRunRow list"
  nextId :: nat

record parsedCourseMeta =
  meta_code :: string
  meta_nameEn :: "string option"
  meta_nameVi :: "string option"
  meta_credits :: "int option"
  meta_prerequisite :: "string option"

text \<open>
  \<^verbatim>\<open>ParsedSheetData\<close>; the catalog \<^verbatim>\<open>Map\<close> is an association list, read with
  \<^const>\<open>map_of\<close>, its keys listed in order.
\<close>

record parsedSheetData =
  ps_sheetName :: string
  ps_cohortCode :: string
  ps_semesterLabel :: string
  ps_semesterKey :: string
  ps_startDate :: "int option"
  ps_endDate :: "int option"
  ps_events :: "parsedEvent list"
  ps_catalog :: "(string \<times> parsedCourseMeta) list"

record importSummary =
  sum_sourceFile :: string
  sum_semesterKey :: string
  sum_semesterLabel :: string
  sum_cohorts :: "string list"
  sum_classGroups :: nat
  sum_courses :: nat
  sum_entries :: nat

datatype importError = NoSheets | UniqueConstraint string

text \<open>\<^verbatim>\<open>new Map(pairs)\<close>: a later pair with the same key replaces an earlier one.\<close>

definition mapOfPairs :: "('k \<times> 'v) list \<Rightarrow> ('k \<rightharpoonup> 'v)" where
  "mapOfPairs ps = map_of (rev ps)"

subsection \<open>Store operations\<close>

text \<open>\<^verbatim>\<open>semester.upsert\<close> on the unique key.\<close>

definition upsertSemester ::
  "db \<Rightarrow> string \<Rightarrow> string \<Rightarrow> string \<Rightarrow> int option \<Rightarrow> int option \<Rightarrow> semesterRow \<times> db" where
  "upsertSemester d key label sourceFile startDate endDate =
     (case find (\<lambda>s. sem_key s = key) (semesters d) of
        Some s \<Rightarrow>
          let s' = s\<lparr>sem_label := label, sem_sourceFile := sourceFile,
                     sem_startDate := startDate, sem_endDate := endDate\<rparr>
          in (s', d\<lparr>semesters := map (\<lambda>r. if sem_key r = key then s' else r) (semesters d)\<rparr>)
      | None \<Rightarrow>
          let s' = \<lparr>sem_id = nextId d, sem_key = key, sem_label = label,
                    sem_startDate = startDate, sem_endDate = endDate,
                    sem_sourceFile = sourceFile\<rparr>
          in (s', d\<lparr>semesters := semesters d @ [s'], nextId := nextId d + 1\<rparr>))"

text \<open>\<^verbatim>\<open>cohort.upsert\<close> on (semesterId, code); its update clause is empty.\<close>

definition upsertCohort :: "db \<Rightarrow> nat \<Rightarrow> string \<Rightarrow> cohortRow \<times> db" where
  "upsertCohort d semesterId c =
     (case find (\<lambda>r. coh_semesterId r = semesterId \<and> coh_code r = c) (cohorts d) of
        Some r \<Rightarrow> (r, d)
      | None \<Rightarrow>
          let r = \<lparr>coh_id = nextId d, coh_code = c, coh_semesterId = semesterId\<rparr>
          in (r, d\<lparr>cohorts := cohorts d @ [r], nextId := nextId d + 1\<rparr>))"

definition deleteEntriesOfGroups :: "nat list \<Rightarrow> db \<Rightarrow> db" where
  "deleteEntriesOfGroups ids d =
     d\<lparr>scheduleEntries :=
         filter (\<lambda>e. ed_classGroupId (se_data e) \<notin> set ids) (scheduleEntries d)\<rparr>"

text \<open>Deleting a class group also deletes the entries that refer to it (cascade).\<close>

definition deleteClassGroups :: "nat list \<Rightarrow> db \<Rightarrow> db" where
  "deleteClassGroups ids d =
     d\<lparr>classGroups := filter (\<lambda>g. cg_id g \<notin> set ids) (classGroups d),
       scheduleEntries :=
         filter (\<lambda>e. ed_classGroupId (se_data e) \<notin> set ids) (scheduleEntries d)\<rparr>"

text \<open>
  \<^verbatim>\<open>classGroup.createMany\<close>: the rows get fresh ids; the statement fails as a whole
  when it would break the unique index on (cohortId, name).
\<close>

definition createClassGroups :: "db \<Rightarrow> nat \<Rightarrow> string list \<Rightarrow> importError + db" where
  "createClassGroups d cohortId names =
     (if \<not> distinct names \<or>
         (\<exists>g \<in> set (classGroups d). cg_cohortId g = cohortId \<and> cg_name g \<in> set names)
      then Inl (UniqueConstraint ''ClassGroup'')
      else Inr (d\<lparr>classGroups := classGroups d @
                     map (\<lambda>(i, n). \<lparr>cg_id = nextId d + i, cg_name = n, cg_cohortId = cohortId\<rparr>)
                         (zip [0 ..< length names] names),
                   nextId := nextId d + length names\<rparr>))"

text \<open>
  The unique index of \<^verbatim>\<open>ScheduleEntry\<close>; rows with no start time never collide, a
  \<^verbatim>\<open>NULL\<close> being distinct from every value in a unique index.
\<close>

definition entryKeyClash :: "entryData \<Rightarrow> entryData \<Rightarrow> bool" where
  "entryKeyClash a b =
     (ed_startTime a \<noteq> None \<and> ed_semesterId a = ed_semesterId b \<and>
      ed_classGroupId a = ed_classGroupId b \<and> ed_dayOfWeek a = ed_dayOfWeek b \<and>
      ed_startTime a = ed_startTime b \<and> ed_courseId a = ed_courseId b \<and>
      ed_sourceRow a = ed_sourceRow b)"

fun clashFree :: "entryData list \<Rightarrow> bool" where
  "clashFree [] = True"
| "clashFree (x # xs) = ((\<forall>y \<in> set xs. \<not> entryKeyClash x y) \<and> clashFree xs)"

definition createEntries :: "db \<Rightarrow> entryData list \<Rightarrow> importError + db" where
  "createEntries d rows =
     (if \<not> clashFree rows \<or>
         (\<exists>x \<in> set rows. \<exists>e \<in> set (scheduleEntries d). entryKeyClash x (se_data e))
      then Inl (UniqueConstraint ''ScheduleEntry'')
      else Inr (d\<lparr>scheduleEntries := scheduleEntries d @
                     map (\<lambda>(i, x). \<lparr>se_id = nextId d + i, se_data = x\<rparr>)
                         (zip [0 ..< length rows] rows),
                   nextId := nextId d + length rows\<rparr>))"

text \<open>A string is truthy when it is not empty.\<close>

definition truthy :: "string option \<Rightarrow> bool" where
  "truthy v = (case v of None \<Rightarrow> False | Some s \<Rightarrow> s \<noteq> [])"

text \<open>
  \<^verbatim>\<open>course.upsert\<close> for one code: the update writes the fields that the catalog of the
  sheet supplies, the creation takes what is there.
\<close>

definition updateCourse :: "parsedCourseMeta option \<Rightarrow> courseRow \<Rightarrow> courseRow" where
  "updateCourse meta r =
     (case meta of
        None \<Rightarrow> r
      | Some m \<Rightarrow>
          r\<lparr>crs_nameEn := (if truthy (meta_nameEn m) then meta_nameEn m else crs_nameEn r),
            crs_nameVi := (if truthy (meta_nameVi m) then meta_nameVi m else crs_nameVi r),
            crs_credits := (if meta_credits m \<noteq> None then meta_credits m else crs_credits r),
            crs_prerequisite :=
              (if truthy (meta_prerequisite m) then meta_prerequisite m else crs_prerequisite r)\<rparr>)"

definition createdCourse :: "parsedCourseMeta option \<Rightarrow> nat \<Rightarrow> string \<Rightarrow> courseRow" where
  "createdCourse meta i c =
     \<lparr>crs_id = i, crs_code = c,
      crs_nameEn = (case meta of None \<Rightarrow> None | Some m \<Rightarrow> meta_nameEn m),
      crs_nameVi = (case meta of None \<Rightarrow> None | Some m \<Rightarrow> meta_nameVi m),
      crs_credits = (case meta of None \<Rightarrow> None | Some m \<Rightarrow> meta_credits m),
      crs_prerequisite = (case meta of None \<Rightarrow> None | Some m \<Rightarrow> meta_prerequisite m)\<rparr>"

definition upsertCourse :: "(string \<times> parsedCourseMeta) list \<Rightarrow> db \<Rightarrow> string \<Rightarrow> db" where
  "upsertCourse catalog d c =
     (let meta = map_of catalog c in
      if \<exists>r \<in> set (courseRows d). crs_code r = c
      then d\<lparr>courseRows := map (\<lambda>r. if crs_code r = c then updateCourse meta r else r)
                                 (courseRows d)\<rparr>
      else d\<lparr>courseRows := courseRows d @ [createdCourse meta (nextId d) c],
             nextId := nextId d + 1\<rparr>)"

subsection \<open>The import\<close>

text \<open>
  The loop of \<^verbatim>\<open>writeImport\<close> that turns the events of a sheet into rows to insert: an
  event whose class group or course has no id in the maps is passed over.
\<close>

fun buildEntryData ::
  "nat \<Rightarrow> (string \<rightharpoonup> nat) \<Rightarrow> (string \<rightharpoonup> nat) \<Rightarrow> parsedEvent list \<Rightarrow> entryData list \<Rightarrow> entryData list" where
  "buildEntryData semesterId classGroupIdByName courseIdByCode [] entryData = entryData"
| "buildEntryData semesterId classGroupIdByName courseIdByCode (event # events) entryData =
     (case (classGroupIdByName (ev_classGroupName event), courseIdByCode (ev_courseCode event)) of
        (Some classGroupId, Some courseId) \<Rightarrow>
          buildEntryData semesterId classGroupIdByName courseIdByCode events
            (entryData @
              [\<lparr>ed_semesterId = semesterId, ed_classGroupId = classGroupId,
                ed_courseId = courseId, ed_dayOfWeek = ev_dayOfWeek event,
                ed_session = ev_session event, ed_startTime = ev_startTime event,
                ed_rawTime = ev_rawTime event, ed_room = ev_room event,
                ed_sourceSheet = ev_sourceSheet event, ed_sourceRow = ev_sourceRow event\<rparr>])
      | _ \<Rightarrow> buildEntryData semesterId classGroupIdByName courseIdByCode events entryData)"

text \<open>\<^verbatim>\<open>sort((a, b) => a.localeCompare(b))\<close>, the collation order a parameter \<open>le\<close>.\<close>

fun insertName :: "(string \<Rightarrow> string \<Rightarrow> bool) \<Rightarrow> string \<Rightarrow> string list \<Rightarrow> string list" where
  "insertName le x [] = [x]"
| "insertName le x (y # ys) = (if le x y then x # y # ys else y # insertName le x ys)"

definition sortNames :: "(string \<Rightarrow> string \<Rightarrow> bool) \<Rightarrow> string list \<Rightarrow> string list" where
  "sortNames le xs = foldr (insertName le) xs []"

record importTotals =
  totalEntries :: nat
  totalClassGroups :: nat
  allCourseCodes :: "string list"

text \<open>
  The body of the loop over the parsed sheets, in its three steps. First the cohort is
  upserted, its class groups and their entries are deleted, and the class groups named
  by the events of the sheet are created.
\<close>

definition refreshCohort ::
  "(string \<Rightarrow> string \<Rightarrow> bool) \<Rightarrow> nat \<Rightarrow> parsedSheetData \<Rightarrow> db
   \<Rightarrow> (importError \<times> db) + (cohortRow \<times> string list \<times> db)" where
  "refreshCohort le semesterId parsedSheet d =
     (let (cohort, d1) = upsertCohort d semesterId (ps_cohortCode parsedSheet);
          existingIds = map cg_id (filter (\<lambda>g. cg_cohortId g = coh_id cohort) (classGroups d1));
          d2 = (if length existingIds > 0
                then deleteClassGroups existingIds (deleteEntriesOfGroups existingIds d1)
                else d1);
          groupNames = sortNames le (uniqueList (map ev_classGroupName (ps_events parsedSheet)))
      in case (if length groupNames > 0 then createClassGroups d2 (coh_id cohort) groupNames
               else Inr d2) of
           Inl err \<Rightarrow> Inl (err, d2)
         | Inr d3 \<Rightarrow> Inr (cohort, groupNames, d3))"

text \<open>Then every course code of the events and of the catalog of the sheet is upserted.\<close>

definition cohortCourseCodes :: "parsedSheetData \<Rightarrow> string list" where
  "cohortCourseCodes parsedSheet =
     foldl setAdd (uniqueList (map ev_courseCode (ps_events parsedSheet)))
           (map fst (ps_catalog parsedSheet))"

definition upsertCourses :: "parsedSheetData \<Rightarrow> db \<Rightarrow> db" where
  "upsertCourses parsedSheet d =
     foldl (upsertCourse (ps_catalog parsedSheet)) d (cohortCourseCodes parsedSheet)"

text \<open>Last the two maps are read back from the store and the entries are built.\<close>

definition classGroupIdByName :: "db \<Rightarrow> nat \<Rightarrow> (string \<rightharpoonup> nat)" where
  "classGroupIdByName d cohortId =
     mapOfPairs (map (\<lambda>g. (cg_name g, cg_id g))
                     (filter (\<lambda>g. cg_cohortId g = cohortId) (classGroups d)))"

definition courseIdByCode :: "db \<Rightarrow> string list \<Rightarrow> (string \<rightharpoonup> nat)" where
  "courseIdByCode d codes =
     mapOfPairs (map (\<lambda>r. (crs_code r, crs_id r))
                     (filter (\<lambda>r. crs_code r \<in> set codes) (courseRows d)))"

definition sheetEntryData :: "nat \<Rightarrow> parsedSheetData \<Rightarrow> nat \<Rightarrow> db \<Rightarrow> entryData list" where
  "sheetEntryData semesterId parsedSheet cohortId d =
     buildEntryData semesterId (classGroupIdByName d cohortId)
       (courseIdByCode d (cohortCourseCodes parsedSheet)) (ps_events parsedSheet) []"

text \<open>A failure keeps what the store holds at that point: nothing is undone.\<close>

definition importSheet ::
  "(string \<Rightarrow> string \<Rightarrow> bool) \<Rightarrow> nat \<Rightarrow> parsedSheetData \<Rightarrow> db \<times> importTotals
   \<Rightarrow> (importError \<times> db) + (db \<times> importTotals)" where
  "importSheet le semesterId parsedSheet st =
     (case refreshCohort le semesterId parsedSheet (fst st) of
        Inl e \<Rightarrow> Inl e
      | Inr (cohort, groupNames, d3) \<Rightarrow>
          let d4 = upsertCourses parsedSheet d3;
              rows = sheetEntryData semesterId parsedSheet (coh_id cohort) d4
          in (case (if length rows > 0 then createEntries d4 rows else Inr d4) of
                Inl err \<Rightarrow> Inl (err, d4)
              | Inr d5 \<Rightarrow>
                  Inr (d5, \<lparr>totalEntries = totalEntries (snd st) + length rows,
                            totalClassGroups = totalClassGroups (snd st) + length groupNames,
                            allCourseCodes =
                              foldl setAdd (allCourseCodes (snd st))
                                    (cohortCourseCodes parsedSheet)\<rparr>)))"

fun importSheets ::
  "(string \<Rightarrow> string \<Rightarrow> bool) \<Rightarrow> nat \<Rightarrow> parsedSheetData list \<Rightarrow> db \<times> importTotals
   \<Rightarrow> (importError \<times> db) + (db \<times> importTotals)" where
  "importSheets le semesterId [] st = Inr st"
| "importSheets le semesterId (parsedSheet # rest) st =
     (case importSheet le semesterId parsedSheet st of
        Inl e \<Rightarrow> Inl e
      | Inr st' \<Rightarrow> importSheets le semesterId rest st')"

definition errorMessage :: "importError \<Rightarrow> string" where
  "errorMessage e =
     (case e of NoSheets \<Rightarrow> ''Cannot read properties of undefined''
      | UniqueConstraint t \<Rightarrow> ''Unique constraint failed on '' @ t)"

definition finishRun :: "nat \<Rightarrow> nat option \<Rightarrow> string \<Rightarrow> string \<Rightarrow> db \<Rightarrow> db" where
  "finishRun runId semesterId status note d =
     d\<lparr>importRuns :=
         map (\<lambda>r. if run_id r = runId
                   then r\<lparr>run_semesterId := (case semesterId of None \<Rightarrow> run_semesterId r
                                               | Some s \<Rightarrow> Some s),
                          run_status := status, run_note := note\<rparr>
                   else r) (importRuns d)\<rparr>"

definition dateBound :: "(int \<Rightarrow> int \<Rightarrow> int) \<Rightarrow> int option list \<Rightarrow> int option" where
  "dateBound pick ds =
     (case map the (filter (\<lambda>v. v \<noteq> None) ds) of
        [] \<Rightarrow> None
      | t # ts \<Rightarrow> Some (foldl pick t ts))"

text \<open>
  \<^verbatim>\<open>writeImport\<close>: the outcome (an error rethrown, or the summary) and the store it
  leaves.
\<close>

definition writeImport ::
  "(string \<Rightarrow> string \<Rightarrow> bool) \<Rightarrow> db \<Rightarrow> parsedSheetData list \<Rightarrow> string
   \<Rightarrow> (importError + importSummary) \<times> db" where
  "writeImport le d0 parsedSheets sourceFile =
     (case parsedSheets of
        [] \<Rightarrow> (Inl NoSheets, d0)
      | first # others \<Rightarrow>
          let semesterLabel = ps_semesterLabel first;
              semesterKey = ps_semesterKey first;
              startDate = dateBound min (map ps_startDate parsedSheets);
              endDate = dateBound max (map ps_endDate parsedSheets);
              runId = nextId d0;
              d1 = d0\<lparr>importRuns := importRuns d0 @
                         [\<lparr>run_id = runId, run_semesterId = None, run_sourceFile = sourceFile,
                           run_status = ''RUNNING'',
                           run_note = ''Preparing import for '' @ semesterLabel\<rparr>],
                       nextId := nextId d0 + 1\<rparr>;
              (semester, d2) = upsertSemester d1 semesterKey semesterLabel sourceFile startDate endDate
          in (case importSheets le (sem_id semester) parsedSheets
                     (d2, \<lparr>totalEntries = 0, totalClassGroups = 0, allCourseCodes = []\<rparr>) of
               Inl (err, d3) \<Rightarrow>
                 (Inl err, finishRun runId None ''FAILED'' (errorMessage err) d3)
             | Inr (d3, totals) \<Rightarrow>
                 (Inr \<lparr>sum_sourceFile = sourceFile, sum_semesterKey = semesterKey,
                       sum_semesterLabel = semesterLabel,
                       sum_cohorts = map ps_cohortCode parsedSheets,
                       sum_classGroups = totalClassGroups totals,
                       sum_courses = length (allCourseCodes totals),
                       sum_entries = totalEntries totals\<rparr>,
                  finishRun runId (Some (sem_id semester)) ''SUCCESS''
                    (''Imported '' @ showNat (totalEntries totals) @ '' schedule entries'') d3)))"






text \<open>An empty store, an event and a sheet of three events for the examples.\<close>

definition emptyDb :: db where
  "emptyDb = \<lparr>semesters = [], cohorts = [], classGroups = [], courseRows = [],
              scheduleEntries = [], importRuns = [], nextId = 1\<rparr>"

definition sampleEvent :: "string \<Rightarrow> string \<Rightarrow> nat \<Rightarrow> parsedEvent" where
  "sampleEvent g c r =
     \<lparr>ev_classGroupName = g, ev_dayOfWeek = MON, ev_session = MORNING,
      ev_startTime = Some ''08:00'', ev_rawTime = None, ev_room = None,
      ev_courseCode = c, ev_sourceSheet = ''SPRING 2026 K69'', ev_sourceRow = r\<rparr>"

definition sampleSheet :: parsedSheetData where
  "sampleSheet =
     \<lparr>ps_sheetName = ''SPRING 2026 K69'', ps_cohortCode = ''K69'',
      ps_semesterLabel = ''SPRING 2026'', ps_semesterKey = ''SPRING_2026'',
      ps_startDate = Some 5, ps_endDate = None,
      ps_events = [sampleEvent ''IT 02'' ''CS 2255'' 5, sampleEvent ''IT 01'' ''CS 2255'' 5,
                   sampleEvent ''IT 01'' ''MTH 1125'' 6],
      ps_catalog = [(''CS 2255'', \<lparr>meta_code = ''CS 2255'', meta_nameEn = Some ''Programming'',
                                  meta_nameVi = None, meta_credits = Some 3,
                                  meta_prerequisite = None\<rparr>)]\<rparr>"



text \<open>The store after one import of the sample sheet, and the cohort row it holds.\<close>

definition dbOnce :: db where
  "dbOnce = snd (writeImport leqName emptyDb [sampleSheet] ''workbook.xlsx'')"

definition cohortK69 :: cohortRow where
  "cohortK69 = \<lparr>coh_id = 3, coh_code = ''K69'', coh_semesterId = 2\<rparr>"

section \<open>Catalog merger: decoding the catalog file\<close>













text \<open>The two known-good words, \<^verbatim>\<open>Khoa H\<close>\<open>\<dots>\<close>\<^verbatim>\<open>c\<close> and \<^verbatim>\<open>Ti\<close>\<open>\<dots>\<close>\<^verbatim>\<open>ng Vi\<close>\<open>\<dots>\<close>\<^verbatim>\<open>t\<close>.\<close>

definition khoaHoc :: "nat list" where
  "khoaHoc = [75, 104, 111, 97, 32, 72, 0x1ECD, 99]"









text \<open>Eight lines of the word \<^verbatim>\<open>Khoa H\<close>\<open>\<dots>\<close>\<^verbatim>\<open>c\<close>.\<close>

definition khoaHocLines :: "nat list" where
  "khoaHocLines = concat (replicate 8 (khoaHoc @ [10]))"


section \<open>Importing twice\<close>

text \<open>What the course upserts of a sheet do to one stored course row.\<close>

definition patchCodes :: "(string \<times> parsedCourseMeta) list \<Rightarrow> string list \<Rightarrow> courseRow \<Rightarrow> courseRow" where
  "patchCodes cat cs r =
     (if crs_code r \<in> set cs then updateCourse (map_of cat (crs_code r)) r else r)"

definition sheetPatch :: "parsedSheetData \<Rightarrow> courseRow \<Rightarrow> courseRow" where
  "sheetPatch s r = patchCodes (ps_catalog s) (cohortCourseCodes s) r"

section \<open>Proofs: assignment resolver\<close>

lemma set_setAdd: "set (setAdd acc x) = insert x (set acc)" by (auto simp: setAdd_def)
lemma distinct_setAdd: "distinct acc \<Longrightarrow> distinct (setAdd acc x)" by (auto simp: setAdd_def)
lemma foldl_setAdd: "set (foldl setAdd acc xs) = set acc \<union> set xs \<and> (distinct acc \<longrightarrow> distinct (foldl setAdd acc xs))"
  by (induction xs arbitrary: acc) (auto simp: set_setAdd distinct_setAdd)
lemma set_uniqueList: "set (uniqueList xs) = set xs" by (simp add: uniqueList_def foldl_setAdd)
lemma distinct_uniqueList: "distinct (uniqueList xs)" by (simp add: uniqueList_def foldl_setAdd)

lemma bestScore_Cons: "bestScore c g i m (a # rows) = bestScore c g i (case scoreRow c g i a of None \<Rightarrow> m | Some s \<Rightarrow> max m s) rows"
  by (simp add: bestScore_def)

lemma bestScore_ge: "m \<le> bestScore c g i m rows"
proof (induction rows arbitrary: m)
  case Nil then show ?case by (simp add: bestScore_def)
next
  case (Cons a rows)
  show ?case
  proof (cases "scoreRow c g i a")
    case None
    then show ?thesis using Cons[of m] by (simp add: bestScore_Cons)
  next
    case (Some s)
    have "m \<le> max m s" by simp
    also have "\<dots> \<le> bestScore c g i (max m s) rows" by (rule Cons)
    finally show ?thesis using Some by (simp add: bestScore_Cons)
  qed
qed

lemma bestScore_upper: "a \<in> set rows \<Longrightarrow> scoreRow c g i a = Some s \<Longrightarrow> s \<le> bestScore c g i m rows"
proof (induction rows arbitrary: m)
  case Nil then show ?case by simp
next
  case (Cons b rows)
  show ?case
  proof (cases "a = b")
    case True
    have "max m s \<le> bestScore c g i (max m s) rows" by (rule bestScore_ge)
    with True Cons.prems show ?thesis by (simp add: bestScore_Cons)
  next
    case False
    with Cons show ?thesis by (simp add: bestScore_Cons)
  qed
qed

lemma bestScore_attained: "bestScore c g i m rows = m \<or> (\<exists>a\<in>set rows. scoreRow c g i a = Some (bestScore c g i m rows))"
proof (induction rows arbitrary: m)
  case Nil then show ?case by (simp add: bestScore_def)
next
  case (Cons b rows)
  show ?case
  proof (cases "scoreRow c g i b")
    case None
    with Cons[of m] show ?thesis by (auto simp: bestScore_Cons)
  next
    case (Some s)
    with Cons[of "max m s"] show ?thesis by (auto simp: bestScore_Cons max_def split: if_splits)
  qed
qed

lemma resolve_loop:
  "foldl (resolveStep c g i) (m, acc) rows =
     (bestScore c g i m rows,
      (if bestScore c g i m rows = m then acc else []) @
      map lecturerId (filter (\<lambda>a. scoreRow c g i a = Some (bestScore c g i m rows)) rows))"
proof (induction rows arbitrary: m acc)
  case Nil then show ?case by (simp add: bestScore_def)
next
  case (Cons a rows)
  show ?case
  proof (cases "scoreRow c g i a")
    case None
    then have "resolveStep c g i (m, acc) a = (m, acc)" by (simp add: resolveStep_def)
    then show ?thesis using None by (simp add: Cons bestScore_Cons)
  next
    case (Some s)
    have ge: "\<And>k. k \<le> bestScore c g i k rows" by (rule bestScore_ge)
    consider "s > m" | "s = m" | "s < m" by linarith
    then show ?thesis
    proof cases
      case 1
      then have mx: "max m s = s" by simp
      have ne: "bestScore c g i s rows \<noteq> m" using ge[of s] 1 by linarith
      have "resolveStep c g i (m, acc) a = (s, [lecturerId a])"
        using Some 1 by (simp add: resolveStep_def)
      then show ?thesis using Some mx ne by (simp add: Cons bestScore_Cons)
    next
      case 2
      have "resolveStep c g i (m, acc) a = (m, acc @ [lecturerId a])"
        using Some 2 by (simp add: resolveStep_def)
      then show ?thesis using Some 2 by (simp add: Cons bestScore_Cons)
    next
      case 3
      then have mx: "max m s = m" by simp
      have ne: "bestScore c g i m rows \<noteq> s" using ge[of m] 3 by linarith
      have "resolveStep c g i (m, acc) a = (m, acc)"
        using Some 3 by (simp add: resolveStep_def)
      then show ?thesis using Some mx ne by (simp add: Cons bestScore_Cons)
    qed
  qed
qed

lemma image_filter_conv: "{f a | a. a \<in> set xs \<and> Q a} = f ` set (filter Q xs)"
  by auto

lemma scoreRow_spec: "courseCode a = c \<Longrightarrow> scoreRow c g i a = specScore g i a"
  by (auto simp: scoreRow_def specScore_def Let_def)

lemma scoreRow_other: "courseCode a \<noteq> c \<Longrightarrow> scoreRow c g i a = None"
  by (simp add: scoreRow_def)

lemma scoreRow_nonneg: "scoreRow c g i a = Some s \<Longrightarrow> 0 \<le> s"
  by (auto simp: scoreRow_def Let_def split: if_splits)

text \<open>
  Claim C1. For every query and every list of assignment rows, the resolver returns,
  without duplicates, exactly the lecturer ids of the rows of the queried course that the
  scoring rule does not reject and whose score is the greatest among such rows; the rule
  (\<open>specScore\<close>) rejects a row whose normalised class group or instruction code is
  non-empty and differs from the query's, adds 2 for an equal class group and 1 for an
  equal instruction code, and gives 0 to a row with both fields empty.
\<close>

theorem resolveLecturersForEntry_max_score:
  "distinct (map lite_id (resolveLecturersForEntry c g i rows names)) \<and>
   set (map lite_id (resolveLecturersForEntry c g i rows names)) =
     {lecturerId a | a. a \<in> set rows \<and> courseCode a = c \<and>
        (\<exists>s. specScore g i a = Some s \<and>
           (\<forall>b \<in> set rows. courseCode b = c \<longrightarrow>
              (\<forall>t. specScore g i b = Some t \<longrightarrow> t \<le> s)))}"
proof -
  let ?B = "bestScore c g i (-1) rows"
  let ?matched = "map lecturerId (filter (\<lambda>a. scoreRow c g i a = Some ?B) rows)"
  have loop: "snd (foldl (resolveStep c g i) (-1, []) rows) = ?matched"
    by (simp add: resolve_loop)
  have ids: "map lite_id (resolveLecturersForEntry c g i rows names) = uniqueList ?matched"
    unfolding resolveLecturersForEntry_def Let_def loop by (simp add: comp_def)
  have "set ?matched = {lecturerId a | a. a \<in> set rows \<and> courseCode a = c \<and>
        (\<exists>s. specScore g i a = Some s \<and>
           (\<forall>b \<in> set rows. courseCode b = c \<longrightarrow>
              (\<forall>t. specScore g i b = Some t \<longrightarrow> t \<le> s)))}" (is "_ = ?R")
  proof (intro set_eqI iffI)
    fix x assume "x \<in> set ?matched"
    then obtain a where a: "a \<in> set rows" "scoreRow c g i a = Some ?B" "x = lecturerId a" by auto
    then have ca: "courseCode a = c" by (auto simp: scoreRow_def split: if_splits)
    have "\<forall>b \<in> set rows. courseCode b = c \<longrightarrow> (\<forall>t. specScore g i b = Some t \<longrightarrow> t \<le> ?B)"
      using bestScore_upper[of _ rows c g i _ "-1"] by (auto simp: scoreRow_spec)
    with a ca show "x \<in> ?R" by (auto simp: scoreRow_spec)
  next
    fix x assume "x \<in> ?R"
    then obtain a s where a: "a \<in> set rows" "courseCode a = c" "x = lecturerId a"
      "specScore g i a = Some s"
      and mx: "\<forall>b \<in> set rows. courseCode b = c \<longrightarrow> (\<forall>t. specScore g i b = Some t \<longrightarrow> t \<le> s)"
      by auto
    have sa: "scoreRow c g i a = Some s" using a by (simp add: scoreRow_spec)
    then have "s \<le> ?B" using a(1) by (rule bestScore_upper[rotated])
    moreover have "?B \<le> s"
    proof -
      from bestScore_attained[of c g i "-1" rows]
      show ?thesis
      proof
        assume "?B = -1"
        then show ?thesis using scoreRow_nonneg[OF sa] by simp
      next
        assume "\<exists>b\<in>set rows. scoreRow c g i b = Some ?B"
        then obtain b where b: "b \<in> set rows" "scoreRow c g i b = Some ?B" by auto
        then have "courseCode b = c" by (auto simp: scoreRow_def split: if_splits)
        with b mx show ?thesis by (auto simp: scoreRow_spec)
      qed
    qed
    ultimately have "s = ?B" by simp
    with sa a show "x \<in> set ?matched" by auto
  qed
  then show ?thesis by (simp add: ids set_uniqueList distinct_uniqueList)
qed

theorem resolveLecturersForEntry_max_score_witness:
  "set (map lite_id (resolveLecturersForEntry ''X'' ''IT 01'' '''' rowsTie Map.empty)) = {''L1'', ''L2''}"
proof -
  have s1: "\<And>l. specScore ''IT 01'' '''' \<lparr>courseCode = ''X'', classGroupName = ''IT 01'', instructionCode = '''', lecturerId = l\<rparr> = Some 2" by code_simp
  have s3: "\<And>l. specScore ''IT 01'' '''' \<lparr>courseCode = ''X'', classGroupName = '''', instructionCode = '''', lecturerId = l\<rparr> = Some 0" by code_simp
  have s4: "\<And>l. specScore ''IT 01'' '''' \<lparr>courseCode = ''X'', classGroupName = ''IT 02'', instructionCode = '''', lecturerId = l\<rparr> = None" by code_simp
  have "set (map lite_id (resolveLecturersForEntry ''X'' ''IT 01'' '''' rowsTie Map.empty)) =
     lecturerId ` set (filter (\<lambda>a. courseCode a = ''X'' \<and>
        (\<exists>s. specScore ''IT 01'' '''' a = Some s \<and>
           (\<forall>b \<in> set rowsTie. courseCode b = ''X'' \<longrightarrow>
              (\<forall>t. specScore ''IT 01'' '''' b = Some t \<longrightarrow> t \<le> s)))) rowsTie)"
    using resolveLecturersForEntry_max_score[of "''X''" "''IT 01''" "''''" rowsTie Map.empty]
    by (simp add: image_filter_conv)
  also have "\<dots> = {''L1'', ''L2''}"
    by (simp add: rowsTie_def s1 s3 s4)
  finally show ?thesis .
qed

section \<open>Proofs: conflicts\<close>

lemma conflictKey_inj: "conflictKey d t = conflictKey d' t' \<longleftrightarrow> d = d' \<and> t = t'"
  by (cases d; cases d'; simp add: conflictKey_def)

lemma slotCodes_snoc:
  "slotCodes (es @ [e]) d t =
     (if dayOfWeek e = d \<and> startTime e = Some t then insert (code (course e)) (slotCodes es d t)
      else slotCodes es d t)"
  by (auto simp: slotCodes_def)

lemma fst_pushCourse: "fst (pushCourse k c kv) = fst kv"
  by (simp add: pushCourse_def)

lemma map_of_pushCourse:
  "map_of (map (pushCourse k c) G) k' =
     (if k' = k then map_option (\<lambda>x. x\<lparr>courses := courses x @ [c]\<rparr>) (map_of G k)
      else map_of G k')"
  by (induction G) (auto simp: pushCourse_def)

lemma conflictStep_keys_timed:
  assumes "startTime e = Some t" "t \<noteq> []"
  shows "map fst (conflictStep G e) =
     (if conflictKey (dayOfWeek e) t \<in> set (map fst G) then map fst G
      else map fst G @ [conflictKey (dayOfWeek e) t])"
proof (cases "map_of G (conflictKey (dayOfWeek e) t)")
  case None
  then have "conflictKey (dayOfWeek e) t \<notin> set (map fst G)"
    by (simp add: map_of_eq_None_iff)
  then show ?thesis using assms None by (simp add: conflictStep_def)
next
  case (Some ex)
  then have "conflictKey (dayOfWeek e) t \<in> set (map fst G)"
    by (metis map_of_eq_None_iff option.distinct(1) set_map)
  then show ?thesis using assms Some by (simp add: conflictStep_def fst_pushCourse)
qed

lemma conflictStep_untimed:
  assumes "startTime e = None \<or> startTime e = Some []"
  shows "conflictStep G e = G"
  using assms by (auto simp: conflictStep_def)

lemma conflictStep_distinct:
  assumes "distinct (map fst G)"
  shows "distinct (map fst (conflictStep G e))"
proof (cases "startTime e = None \<or> startTime e = Some []")
  case True
  then show ?thesis using assms by (simp add: conflictStep_untimed)
next
  case False
  then obtain t where "startTime e = Some t" "t \<noteq> []" by auto
  then show ?thesis using assms by (simp add: conflictStep_keys_timed)
qed

lemma conflictStep_map_of:
  assumes "startTime e = Some t" "t \<noteq> []"
  shows "map_of (conflictStep G e) k =
     (if k = conflictKey (dayOfWeek e) t then Some (bumpConflict e t (map_of G k)) else map_of G k)"
proof (cases "map_of G (conflictKey (dayOfWeek e) t)")
  case None
  then show ?thesis using assms by (simp add: conflictStep_def bumpConflict_def map_add_def split: option.splits)
next
  case (Some ex)
  then show ?thesis using assms by (simp add: conflictStep_def bumpConflict_def map_of_pushCourse)
qed

lemma groupedInv_untimed:
  assumes "groupedInv es m" "startTime e = None \<or> startTime e = Some []"
  shows "groupedInv (es @ [e]) m"
proof -
  have "\<And>d t. t \<noteq> [] \<Longrightarrow> slotCodes (es @ [e]) d t = slotCodes es d t"
    using assms(2) by (auto simp: slotCodes_snoc)
  then show ?thesis using assms unfolding groupedInv_def by auto
qed

lemma bumpConflict_ok:
  assumes inv: "groupedInv es m" and t: "startTime e = Some t" "t \<noteq> []"
  defines "k \<equiv> conflictKey (dayOfWeek e) t"
  defines "c \<equiv> bumpConflict e t (m k)"
  shows "conflictDay c = dayOfWeek e \<and> conflictStart c = t \<and> distinct (courses c) \<and>
         set (courses c) = insert (code (course e)) (slotCodes es (dayOfWeek e) t)"
proof (cases "m k")
  case None
  have "slotCodes es (dayOfWeek e) t = {}"
  proof (rule ccontr)
    assume "slotCodes es (dayOfWeek e) t \<noteq> {}"
    then obtain e' where "e' \<in> set es" "dayOfWeek e' = dayOfWeek e" "startTime e' = Some t"
      by (auto simp: slotCodes_def)
    with inv t(2) have "m k \<noteq> None" unfolding groupedInv_def k_def by metis
    with None show False by simp
  qed
  then show ?thesis using None by (simp add: c_def bumpConflict_def)
next
  case (Some ex)
  with inv have ex: "k = conflictKey (conflictDay ex) (conflictStart ex)" "distinct (courses ex)"
     "set (courses ex) = slotCodes es (conflictDay ex) (conflictStart ex)"
    unfolding groupedInv_def by blast+
  from ex(1) have "conflictDay ex = dayOfWeek e" "conflictStart ex = t"
    by (simp_all add: k_def conflictKey_inj)
  with ex Some show ?thesis by (auto simp: c_def bumpConflict_def)
qed

lemma groupedInv_timed:
  assumes inv: "groupedInv es m" and t: "startTime e = Some t" "t \<noteq> []"
  shows "groupedInv (es @ [e])
           (m(conflictKey (dayOfWeek e) t \<mapsto> bumpConflict e t (m (conflictKey (dayOfWeek e) t))))"
    (is "groupedInv _ ?m'")
  unfolding groupedInv_def
proof (intro conjI allI impI ballI)
  fix k c assume kc: "?m' k = Some c"
  show "k = conflictKey (conflictDay c) (conflictStart c)"
    using kc bumpConflict_ok[OF inv t] inv unfolding groupedInv_def
    by (auto split: if_splits)
  show "conflictStart c \<noteq> []"
    using kc bumpConflict_ok[OF inv t] inv t unfolding groupedInv_def
    by (auto split: if_splits)
  show "distinct (courses c)"
    using kc bumpConflict_ok[OF inv t] inv t unfolding groupedInv_def
    by (auto split: if_splits)
  show "set (courses c) = slotCodes (es @ [e]) (conflictDay c) (conflictStart c)"
  proof (cases "k = conflictKey (dayOfWeek e) t")
    case True
    then have "c = bumpConflict e t (m (conflictKey (dayOfWeek e) t))" using kc by simp
    then show ?thesis using bumpConflict_ok[OF inv t] t by (simp add: slotCodes_snoc)
  next
    case False
    then have mk: "m k = Some c" using kc by simp
    then have "k = conflictKey (conflictDay c) (conflictStart c)"
      "set (courses c) = slotCodes es (conflictDay c) (conflictStart c)"
      using inv unfolding groupedInv_def by blast+
    moreover from this False have "\<not> (dayOfWeek e = conflictDay c \<and> t = conflictStart c)" by auto
    ultimately show ?thesis using t by (auto simp: slotCodes_snoc)
  qed
next
  fix e' t' assume e': "e' \<in> set (es @ [e])" and t': "startTime e' = Some t' \<and> t' \<noteq> []"
  show "?m' (conflictKey (dayOfWeek e') t') \<noteq> None"
  proof (cases "e' = e")
    case True
    then show ?thesis using t t' by simp
  next
    case False
    then have "e' \<in> set es" using e' by simp
    then have "m (conflictKey (dayOfWeek e') t') \<noteq> None"
      using inv t' unfolding groupedInv_def by blast
    then show ?thesis by simp
  qed
qed

lemma groupedInv_foldl:
  "distinct (map fst (foldl conflictStep [] es)) \<and> groupedInv es (map_of (foldl conflictStep [] es))"
proof (induction es rule: rev_induct)
  case Nil
  show ?case by (simp add: groupedInv_def)
next
  case (snoc e es)
  let ?G = "foldl conflictStep [] es"
  have d: "distinct (map fst (conflictStep ?G e))" using snoc by (simp add: conflictStep_distinct)
  have "groupedInv (es @ [e]) (map_of (conflictStep ?G e))"
  proof (cases "startTime e = None \<or> startTime e = Some []")
    case True
    then show ?thesis using snoc by (simp add: conflictStep_untimed groupedInv_untimed)
  next
    case False
    then obtain t where t: "startTime e = Some t" "t \<noteq> []" by auto
    have "map_of (conflictStep ?G e) =
        (map_of ?G)(conflictKey (dayOfWeek e) t \<mapsto> bumpConflict e t (map_of ?G (conflictKey (dayOfWeek e) t)))"
      by (rule ext) (simp add: conflictStep_map_of[OF t])
    then show ?thesis using groupedInv_timed[OF _ t] snoc by simp
  qed
  with d show ?case by simp
qed


lemma grouped_members:
  assumes "distinct (map fst G)" "groupedInv es (map_of G)" "kv \<in> set G"
  shows "fst kv = conflictKey (conflictDay (snd kv)) (conflictStart (snd kv))"
    and "conflictStart (snd kv) \<noteq> []"
    and "distinct (courses (snd kv))"
    and "set (courses (snd kv)) = slotCodes es (conflictDay (snd kv)) (conflictStart (snd kv))"
proof -
  have "map_of G (fst kv) = Some (snd kv)" using assms(1,3) by simp
  with assms(2) show "fst kv = conflictKey (conflictDay (snd kv)) (conflictStart (snd kv))"
    and "conflictStart (snd kv) \<noteq> []"
    and "distinct (courses (snd kv))"
    and "set (courses (snd kv)) = slotCodes es (conflictDay (snd kv)) (conflictStart (snd kv))"
    unfolding groupedInv_def by blast+
qed

lemma finite_slotCodes: "finite (slotCodes es d t)"
proof -
  have "slotCodes es d t \<subseteq> (\<lambda>e. code (course e)) ` set es" by (auto simp: slotCodes_def)
  then show ?thesis by (rule finite_subset) simp
qed

lemma slotCodes_nonempty_grouped:
  assumes "groupedInv es (map_of G)" "slotCodes es d t \<noteq> {}" "t \<noteq> []"
  shows "\<exists>c. (conflictKey d t, c) \<in> set G"
proof -
  from assms(2) obtain e where "e \<in> set es" "dayOfWeek e = d" "startTime e = Some t"
    by (auto simp: slotCodes_def)
  with assms(1,3) have "map_of G (conflictKey d t) \<noteq> None" unfolding groupedInv_def by blast
  then show ?thesis by (auto dest: map_of_SomeD)
qed

text \<open>
  Claim C9. The conflict list has one conflict per slot (day and start time), the slots
  listed are exactly those in which entries of more than one distinct course code meet,
  and each conflict lists every course code of its slot once. A slot whose entries all
  carry the same course code has one code, so it is not listed. Entries without a start
  time belong to no slot.
\<close>

theorem computeConflicts_exact:
  "distinct (map (\<lambda>c. (conflictDay c, conflictStart c)) (computeConflicts es)) \<and>
   (\<forall>d t. (\<exists>c \<in> set (computeConflicts es). conflictDay c = d \<and> conflictStart c = t)
            \<longleftrightarrow> t \<noteq> [] \<and> 1 < card (slotCodes es d t)) \<and>
   (\<forall>c \<in> set (computeConflicts es).
        distinct (courses c) \<and>
        set (courses c) = slotCodes es (conflictDay c) (conflictStart c))"
proof -
  let ?G = "foldl conflictStep [] es"
  have dG: "distinct (map fst ?G)" and inv: "groupedInv es (map_of ?G)"
    using groupedInv_foldl[of es] by simp_all
  note mem = grouped_members[OF dG inv]
  have cs: "computeConflicts es = filter (\<lambda>c. length (courses c) > 1) (map snd ?G)"
    by (simp add: computeConflicts_def)
  have keys: "map (\<lambda>c. conflictKey (conflictDay c) (conflictStart c)) (map snd ?G) = map fst ?G"
    using mem(1) by (simp add: comp_def)
  have "distinct (map (\<lambda>c. conflictKey (conflictDay c) (conflictStart c)) (map snd ?G))"
    unfolding keys by (rule dG)
  then have "distinct (map (\<lambda>c. conflictKey (conflictDay c) (conflictStart c)) (computeConflicts es))"
    unfolding cs by (rule distinct_map_filter)
  then have "distinct (map (\<lambda>p. conflictKey (fst p) (snd p))
                 (map (\<lambda>c. (conflictDay c, conflictStart c)) (computeConflicts es)))"
    by (simp add: comp_def)
  then have part1: "distinct (map (\<lambda>c. (conflictDay c, conflictStart c)) (computeConflicts es))"
    by (simp only: distinct_map[of "\<lambda>p. conflictKey (fst p) (snd p)"])
  have part3: "\<forall>c \<in> set (computeConflicts es).
        distinct (courses c) \<and> set (courses c) = slotCodes es (conflictDay c) (conflictStart c)"
    using mem(3,4) unfolding cs by auto
  have card: "\<And>kv. kv \<in> set ?G \<Longrightarrow>
      length (courses (snd kv)) = card (slotCodes es (conflictDay (snd kv)) (conflictStart (snd kv)))"
    using mem(3,4) by (metis distinct_card)
  have part2: "\<forall>d t. (\<exists>c \<in> set (computeConflicts es). conflictDay c = d \<and> conflictStart c = t)
            \<longleftrightarrow> t \<noteq> [] \<and> 1 < card (slotCodes es d t)"
  proof (intro allI iffI)
    fix d t
    assume "\<exists>c \<in> set (computeConflicts es). conflictDay c = d \<and> conflictStart c = t"
    then obtain kv where kv: "kv \<in> set ?G" "length (courses (snd kv)) > 1"
       "conflictDay (snd kv) = d" "conflictStart (snd kv) = t"
      unfolding cs by auto
    then show "t \<noteq> [] \<and> 1 < card (slotCodes es d t)"
      using mem(2)[OF kv(1)] card[OF kv(1)] by simp
  next
    fix d t
    assume a: "t \<noteq> [] \<and> 1 < card (slotCodes es d t)"
    then have "slotCodes es d t \<noteq> {}" by auto
    then obtain c where c: "(conflictKey d t, c) \<in> set ?G"
      using slotCodes_nonempty_grouped[OF inv] a by blast
    from mem(1)[OF c] have dt: "conflictDay c = d" "conflictStart c = t"
      by (simp_all add: conflictKey_inj)
    with card[OF c] a have "length (courses c) > 1" by simp
    with c dt show "\<exists>c \<in> set (computeConflicts es). conflictDay c = d \<and> conflictStart c = t"
      unfolding cs by force
  qed
  from part1 part2 part3 show ?thesis by blast
qed

theorem computeConflicts_exact_witness:
  "computeConflicts [mkEntry MON ''08:00'' ''CS 2255'', mkEntry MON ''08:00'' ''MATH 101'',
                     mkEntry TUE ''08:00'' ''MATH 101'', mkEntry TUE ''08:00'' ''MATH 101'']
     = [\<lparr>conflictDay = MON, conflictStart = ''08:00'', courses = [''CS 2255'', ''MATH 101'']\<rparr>]
   \<and> card (slotCodes [mkEntry MON ''08:00'' ''CS 2255'', mkEntry MON ''08:00'' ''MATH 101'',
                     mkEntry TUE ''08:00'' ''MATH 101'', mkEntry TUE ''08:00'' ''MATH 101''] MON ''08:00'') = 2"
proof -
  let ?es = "[mkEntry MON ''08:00'' ''CS 2255'', mkEntry MON ''08:00'' ''MATH 101'',
                     mkEntry TUE ''08:00'' ''MATH 101'', mkEntry TUE ''08:00'' ''MATH 101'']"
  have ev: "computeConflicts ?es
     = [\<lparr>conflictDay = MON, conflictStart = ''08:00'', courses = [''CS 2255'', ''MATH 101'']\<rparr>]"
    by code_simp
  have "\<forall>c \<in> set (computeConflicts ?es). distinct (courses c) \<and>
        set (courses c) = slotCodes ?es (conflictDay c) (conflictStart c)"
    using computeConflicts_exact[of ?es] by blast
  then have "slotCodes ?es MON ''08:00'' = {''CS 2255'', ''MATH 101''}"
    unfolding ev by simp
  then show ?thesis using ev by simp
qed

section \<open>Proofs: fallback tier\<close>

lemma set_insertByName: "set (insertByName le x ys) = insert x (set ys)"
  by (induction ys) auto

lemma set_sortByName: "set (sortByName le xs) = set xs"
  by (induction xs) (simp_all add: sortByName_def set_insertByName)

lemma getRow_seed:
  "getRow (foldl (\<lambda>m c. m(c \<mapsto> uniqueList (getRow cat c))) m0 sel) c =
     (if c \<in> set sel then uniqueList (getRow cat c) else getRow m0 c)"
  by (induction sel arbitrary: m0) (auto simp: getRow_def)

lemma set_getRow_seedFallback:
  "set (getRow (seedFallback cat sel) c) = (if c \<in> set sel then set (getRow cat c) else {})"
  by (simp add: seedFallback_def getRow_seed set_uniqueList) (simp add: getRow_def)

lemma getRow_overrideStep:
  "set (getRow (overrideStep m ov) c) =
     (if ov_courseCode ov = c
      then (if ov_enabled ov then insert (ov_lecturerId ov) (set (getRow m c))
            else set (getRow m c) - {ov_lecturerId ov})
      else set (getRow m c))"
  by (auto simp: overrideStep_def Let_def getRow_def set_setAdd)

lemma lastOverride_snoc:
  "lastOverride (ovs @ [ov]) c l =
     (if ov_courseCode ov = c \<and> ov_lecturerId ov = l then Some ov else lastOverride ovs c l)"
  by (simp add: lastOverride_def Let_def)

lemma fallback_member:
  "l \<in> set (getRow (foldl overrideStep m0 ovs) c) \<longleftrightarrow>
     (case lastOverride ovs c l of Some ov \<Rightarrow> ov_enabled ov | None \<Rightarrow> l \<in> set (getRow m0 c))"
proof (induction ovs rule: rev_induct)
  case Nil
  show ?case by (simp add: lastOverride_def)
next
  case (snoc ov ovs)
  show ?case
    by (simp add: getRow_overrideStep lastOverride_snoc snoc)
qed

lemma fallback_spec:
  "set (getRow (fallbackLecturerIdsByCourse cat sel ovs) c) = specFallback cat sel ovs c"
  unfolding fallbackLecturerIdsByCourse_def specFallback_def
  by (rule set_eqI) (simp add: fallback_member set_getRow_seedFallback split: option.splits)

lemma uniqueList_Nil_iff: "uniqueList xs = [] \<longleftrightarrow> xs = []"
  using set_uniqueList[of xs] by (metis set_empty)

lemma resolve_empty_iff:
  "resolveLecturersForEntry c g i rows names = [] \<longleftrightarrow>
     (\<forall>a \<in> set rows. scoreRow c g i a = None)"
proof -
  let ?B = "bestScore c g i (-1) rows"
  have "resolveLecturersForEntry c g i rows names = [] \<longleftrightarrow>
        filter (\<lambda>a. scoreRow c g i a = Some ?B) rows = []"
    by (simp add: resolveLecturersForEntry_def Let_def resolve_loop uniqueList_Nil_iff)
  also have "\<dots> \<longleftrightarrow> (\<forall>a \<in> set rows. scoreRow c g i a = None)"
  proof
    assume e: "filter (\<lambda>a. scoreRow c g i a = Some ?B) rows = []"
    show "\<forall>a \<in> set rows. scoreRow c g i a = None"
    proof (rule ccontr)
      assume "\<not> (\<forall>a \<in> set rows. scoreRow c g i a = None)"
      then obtain a s where a: "a \<in> set rows" "scoreRow c g i a = Some s" by auto
      then have "0 \<le> s" "s \<le> ?B" by (auto intro: scoreRow_nonneg bestScore_upper)
      then have "?B \<noteq> -1" by simp
      with bestScore_attained[of c g i "-1" rows]
      obtain b where "b \<in> set rows" "scoreRow c g i b = Some ?B" by auto
      with e show False by (auto simp: filter_empty_conv)
    qed
  next
    assume "\<forall>a \<in> set rows. scoreRow c g i a = None"
    then show "filter (\<lambda>a. scoreRow c g i a = Some ?B) rows = []"
      by (simp add: filter_empty_conv)
  qed
  finally show ?thesis .
qed

lemma scoreRow_None_iff:
  "scoreRow c g i a = None \<longleftrightarrow> (courseCode a = c \<longrightarrow> specScore g i a = None)"
  by (cases "courseCode a = c") (simp_all add: scoreRow_spec scoreRow_other)

text \<open>
  Claim C2, as stated, fails: a course can have assignment rows and still be answered
  from the fallback tier. Here course X has one row, scoped to instruction code IHA1; an
  entry of X without instruction code rejects it and gets the catalog default D1.
\<close>

theorem usesFallbackTier_iff_no_rows_counterexample:
  "usesFallbackTier ''X'' ''IT 01'' '''' rowsScoped Map.empty \<and>
   map courseCode rowsScoped = [''X''] \<and>
   map lite_id (entryLecturers leqName Map.empty ''X'' ''IT 01'' '''' rowsScoped
                  (fallbackLecturerIdsByCourse catalogX [''X''] [])) = [''D1'']"
  by code_simp

text \<open>
  Claim C2, amended. An entry is answered from the fallback tier exactly when the scoped
  tier gives no lecturer, that is when every assignment row of the course is rejected by
  the scoring rule (in particular when the course has no row). The fallback tier is the
  catalog default set of the course with the override rows layered on it in storage
  order, the last row for a lecturer id deciding (enabled adds, disabled removes). The
  answer comes from one tier only: the fallback set in the first case, the scoped result
  unchanged in the other.
\<close>

theorem entryLecturers_one_tier:
  "(usesFallbackTier c g i rows names \<longleftrightarrow>
      (\<forall>a \<in> set rows. courseCode a = c \<longrightarrow> specScore g i a = None)) \<and>
   (usesFallbackTier c g i rows names \<longrightarrow>
      set (map lite_id (entryLecturers le names c g i rows
                          (fallbackLecturerIdsByCourse cat sel ovs))) = specFallback cat sel ovs c) \<and>
   (\<not> usesFallbackTier c g i rows names \<longrightarrow>
      entryLecturers le names c g i rows (fallbackLecturerIdsByCourse cat sel ovs)
        = resolveLecturersForEntry c g i rows names)"
proof (intro conjI impI)
  show "usesFallbackTier c g i rows names \<longleftrightarrow>
      (\<forall>a \<in> set rows. courseCode a = c \<longrightarrow> specScore g i a = None)"
    by (simp add: usesFallbackTier_def resolve_empty_iff scoreRow_None_iff)
next
  assume "usesFallbackTier c g i rows names"
  then have "resolveLecturersForEntry c g i rows names = []"
    by (simp add: usesFallbackTier_def)
  then have "entryLecturers le names c g i rows (fallbackLecturerIdsByCourse cat sel ovs) =
      sortByName le (map (toLecturerLite names)
         (uniqueList (getRow (fallbackLecturerIdsByCourse cat sel ovs) c)))"
    by (simp add: entryLecturers_def)
  then show "set (map lite_id (entryLecturers le names c g i rows
                          (fallbackLecturerIdsByCourse cat sel ovs))) = specFallback cat sel ovs c"
    by (simp add: set_sortByName image_image set_uniqueList fallback_spec toLecturerLite_def)
next
  assume "\<not> usesFallbackTier c g i rows names"
  then show "entryLecturers le names c g i rows (fallbackLecturerIdsByCourse cat sel ovs)
        = resolveLecturersForEntry c g i rows names"
    by (simp add: usesFallbackTier_def entryLecturers_def)
qed

theorem entryLecturers_one_tier_witness:
  "usesFallbackTier ''X'' ''IT 01'' '''' rowsScoped Map.empty \<and>
   set (map lite_id (entryLecturers leqName Map.empty ''X'' ''IT 01'' '''' rowsScoped
                          (fallbackLecturerIdsByCourse catalogX [''X''] []))) = {''D1''} \<and>
   \<not> usesFallbackTier ''X'' ''IT 01'' ''IHA1'' rowsScoped Map.empty \<and>
   map lite_id (entryLecturers leqName Map.empty ''X'' ''IT 01'' ''IHA1'' rowsScoped
                          (fallbackLecturerIdsByCourse catalogX [''X''] [])) = [''L1'']"
proof -
  have u1: "usesFallbackTier ''X'' ''IT 01'' '''' rowsScoped Map.empty" by code_simp
  have u2: "\<not> usesFallbackTier ''X'' ''IT 01'' ''IHA1'' rowsScoped Map.empty" by code_simp
  have sf: "specFallback catalogX [''X''] [] ''X'' = {''D1''}"
    by (auto simp: specFallback_def lastOverride_def catalogX_def getRow_def)
  have r2: "map lite_id (resolveLecturersForEntry ''X'' ''IT 01'' ''IHA1'' rowsScoped Map.empty) = [''L1'']"
    by code_simp
  from entryLecturers_one_tier[of "''X''" "''IT 01''" "''''" rowsScoped Map.empty leqName catalogX "[''X'']" "[]"]
       entryLecturers_one_tier[of "''X''" "''IT 01''" "''IHA1''" rowsScoped Map.empty leqName catalogX "[''X'']" "[]"]
       u1 u2 sf r2
  show ?thesis by simp
qed

section \<open>Proofs: class-group labels\<close>

lemma rangeLoop_eq: "rangeLoop current end expanded = expanded @ map groupLabel [current ..< Suc end]"
proof (induction current "end" expanded rule: rangeLoop.induct)
  case (1 current "end" expanded)
  show ?case
  proof (cases "current \<le> end")
    case True
    then have "[current ..< Suc end] = current # [Suc current ..< Suc end]"
      by (simp add: upt_conv_Cons)
    with True "1" show ?thesis by (subst rangeLoop.simps) simp
  next
    case False
    then show ?thesis by (subst rangeLoop.simps) simp
  qed
qed

lemma expandClassGroups_unfold:
  "expandClassGroups label =
     (if tokenNumbers label = [] then []
      else if length (tokenNumbers label) \<ge> 2 \<and> CHR ''-'' \<in> set label \<and>
              tokenNumbers label ! 0 < tokenNumbers label ! 1 \<and>
              tokenNumbers label ! 1 - tokenNumbers label ! 0 \<le> 20
           then map groupLabel [tokenNumbers label ! 0 ..< Suc (tokenNumbers label ! 1)]
           else uniqueList (map groupLabel (tokenNumbers label)))"
  unfolding expandClassGroups_def tokenNumbers_def Let_def rangeLoop_eq
  by (simp only: length_0_conv append_Nil)

text \<open>
  The rule that the code follows, by the numbers of the \<^verbatim>\<open>IT\<close> tokens of the label:
  with a hyphen in the label and at least two tokens, the second number above the first
  by 1 to 20, the inclusive range from the first to the second; otherwise one class
  group for each token, without duplicates.
\<close>

lemma expandClassGroups_by_tokens:
  "(length (tokenNumbers label) \<ge> 2 \<and> CHR ''-'' \<in> set label \<and>
    tokenNumbers label ! 0 < tokenNumbers label ! 1 \<and>
    tokenNumbers label ! 1 - tokenNumbers label ! 0 \<le> 20
      \<longrightarrow> expandClassGroups label =
            map groupLabel [tokenNumbers label ! 0 ..< Suc (tokenNumbers label ! 1)]) \<and>
   (\<not> (length (tokenNumbers label) \<ge> 2 \<and> CHR ''-'' \<in> set label \<and>
       tokenNumbers label ! 0 < tokenNumbers label ! 1 \<and>
       tokenNumbers label ! 1 - tokenNumbers label ! 0 \<le> 20)
      \<longrightarrow> distinct (expandClassGroups label) \<and>
          set (expandClassGroups label) = groupLabel ` set (tokenNumbers label))"
proof (intro conjI impI)
  assume a: "length (tokenNumbers label) \<ge> 2 \<and> CHR ''-'' \<in> set label \<and>
    tokenNumbers label ! 0 < tokenNumbers label ! 1 \<and>
    tokenNumbers label ! 1 - tokenNumbers label ! 0 \<le> 20"
  then have "tokenNumbers label \<noteq> []" by auto
  with a show "expandClassGroups label =
            map groupLabel [tokenNumbers label ! 0 ..< Suc (tokenNumbers label ! 1)]"
    by (subst expandClassGroups_unfold) (simp only: if_True if_False simp_thms)
next
  assume n: "\<not> (length (tokenNumbers label) \<ge> 2 \<and> CHR ''-'' \<in> set label \<and>
       tokenNumbers label ! 0 < tokenNumbers label ! 1 \<and>
       tokenNumbers label ! 1 - tokenNumbers label ! 0 \<le> 20)"
  have "expandClassGroups label = uniqueList (map groupLabel (tokenNumbers label))"
  proof (cases "tokenNumbers label = []")
    case True
    then show ?thesis by (subst expandClassGroups_unfold) (simp add: uniqueList_def)
  next
    case False
    with n show ?thesis by (subst expandClassGroups_unfold) (simp only: if_True if_False simp_thms)
  qed
  then show "distinct (expandClassGroups label)"
    and "set (expandClassGroups label) = groupLabel ` set (tokenNumbers label)"
    by (simp_all add: distinct_uniqueList set_uniqueList)
qed

text \<open>
  Claim C3. The claim asks for the five groups IT 01 to IT 05 from the label
  \<^verbatim>\<open>IT 01-05\<close>. The code builds ranges, and does so when both ends carry the letters
  (\<^verbatim>\<open>IT 01-IT 05\<close>), but its tokenizer wants \<^verbatim>\<open>IT\<close> before every number: in
  \<^verbatim>\<open>IT 01-05\<close> it finds the one token IT 01, the range branch is not entered, and the
  result is IT 01 alone. The second example of the claim, \<^verbatim>\<open>IT 03, IT 07\<close>, gives the
  two groups.
\<close>

theorem expandClassGroups_bare_range:
  "tokenNumbers ''IT 01-05'' = [1] \<and>
   expandClassGroups ''IT 01-05'' = [''IT 01''] \<and>
   expandClassGroups ''IT 01-05'' \<noteq> [''IT 01'', ''IT 02'', ''IT 03'', ''IT 04'', ''IT 05''] \<and>
   expandClassGroups ''IT 01-IT 05'' = [''IT 01'', ''IT 02'', ''IT 03'', ''IT 04'', ''IT 05''] \<and>
   expandClassGroups ''IT 03, IT 07'' = [''IT 03'', ''IT 07'']"
  by code_simp

section \<open>Proofs: course codes and schedule cells\<close>

lemma char_eq_code: "(c = d) \<longleftrightarrow> ((of_char c :: nat) = of_char d)"
  by simp

lemma isSpace_code: "isSpace c \<longleftrightarrow> (of_char c :: nat) \<in> {9, 10, 11, 12, 13, 32, 160}"
  unfolding isSpace_def by (simp add: char_eq_code[of c] del: of_char_eq_iff)

lemma of_char_upperChar:
  "(of_char (upperChar c) :: nat) =
     (if isLower c \<or> isLatinLower c then of_char c - 32 else of_char c)"
  using nat_of_char_less_256[of c] by (auto simp: upperChar_def isLower_def isLatinLower_def)

lemma isSpace_upperChar: "isSpace (upperChar c) = isSpace c"
  by (auto simp: isSpace_code of_char_upperChar isLower_def isLatinLower_def)

lemma filter_upperUnits:
  "filter (\<lambda>d. \<not> isSpace d) (upperUnits c) = (if isSpace c then [] else upperUnits c)"
proof (cases "c = CHR 0xDF")
  case True
  then have "\<not> isSpace c" by (simp add: isSpace_def)
  moreover have "\<not> isSpace CHR ''S''" by (simp add: isSpace_def)
  ultimately show ?thesis using True by (simp add: upperUnits_def)
next
  case False
  then show ?thesis by (simp add: upperUnits_def isSpace_upperChar)
qed

lemma filter_toUpperCase:
  "filter (\<lambda>d. \<not> isSpace d) (toUpperCase s) = toUpperCase (filter (\<lambda>d. \<not> isSpace d) s)"
  by (induction s) (simp_all add: toUpperCase_def filter_upperUnits)

lemma filter_collapseRun: "filter (\<lambda>d. \<not> isSpace d) (collapseRun b s) = filter (\<lambda>d. \<not> isSpace d) s"
proof (induction s arbitrary: b)
  case Nil
  show ?case by simp
next
  case (Cons c s)
  have "isSpace CHR '' ''" by (simp add: isSpace_def)
  then show ?case by (simp add: Cons)
qed

lemma filter_dropWhile_space:
  "filter (\<lambda>d. \<not> isSpace d) (dropWhile isSpace s) = filter (\<lambda>d. \<not> isSpace d) s"
  by (induction s) simp_all

lemma filter_trim: "filter (\<lambda>d. \<not> isSpace d) (trim s) = filter (\<lambda>d. \<not> isSpace d) s"
proof -
  have "filter (\<lambda>d. \<not> isSpace d) (trim s) =
        rev (filter (\<lambda>d. \<not> isSpace d) (dropWhile isSpace (rev (dropWhile isSpace s))))"
    by (simp add: trim_def rev_filter)
  also have "\<dots> = rev (filter (\<lambda>d. \<not> isSpace d) (rev (dropWhile isSpace s)))"
    by (simp only: filter_dropWhile_space)
  also have "\<dots> = filter (\<lambda>d. \<not> isSpace d) (dropWhile isSpace s)"
    by (simp add: rev_filter)
  finally show ?thesis by (simp only: filter_dropWhile_space)
qed

lemma filter_cleanCell: "filter (\<lambda>d. \<not> isSpace d) (cleanCell v) = filter (\<lambda>d. \<not> isSpace d) v"
proof -
  have sp: "isSpace CHR '' ''" "isSpace (CHR 0xA0)" by (simp_all add: isSpace_def)
  have "filter (\<lambda>d. \<not> isSpace d) (map (\<lambda>c. if c = CHR 0xA0 then CHR '' '' else c) v)
        = filter (\<lambda>d. \<not> isSpace d) v"
    using sp by (induction v) auto
  then show ?thesis by (simp add: cleanCell_def filter_trim)
qed

lemma matchCourseCode_Nil: "matchCourseCode n [] = None"
  by (simp add: matchCourseCode_def)

lemma normalizeCourseCode_compact:
  "normalizeCourseCode raw =
     map_option (\<lambda>(letters, digits). letters @ '' '' @ digits)
       (matchCourseCode 4 (filter (\<lambda>c. \<not> isSpace c) (toUpperCase raw)))"
proof -
  let ?text = "collapseSpaces (toUpperCase (cleanCell raw))"
  have compact: "filter (\<lambda>c. \<not> isSpace c) ?text = filter (\<lambda>c. \<not> isSpace c) (toUpperCase raw)"
    by (simp add: collapseSpaces_def filter_collapseRun filter_toUpperCase filter_cleanCell)
  show ?thesis
  proof (cases "?text = []")
    case True
    then have "filter (\<lambda>c. \<not> isSpace c) ?text = []" by simp
    then have "filter (\<lambda>c. \<not> isSpace c) (toUpperCase raw) = []" using compact by simp
    then show ?thesis using True by (simp add: normalizeCourseCode_def matchCourseCode_Nil)
  next
    case False
    then show ?thesis
      unfolding normalizeCourseCode_def Let_def compact
      by (simp split: option.splits)
  qed
qed

lemma digit_not_upper: "isDigit c \<Longrightarrow> \<not> isUpper c"
  by (simp add: isDigit_def isUpper_def)

lemma takeWhile_split:
  assumes "list_all P xs" "ys \<noteq> []" "\<not> P (hd ys)"
  shows "takeWhile P (xs @ ys) = xs" and "dropWhile P (xs @ ys) = ys"
proof -
  from assms(2) obtain y ys' where ys: "ys = y # ys'" by (cases ys) auto
  with assms show "takeWhile P (xs @ ys) = xs" and "dropWhile P (xs @ ys) = ys"
    by (induction xs) (auto simp: list_all_iff)
qed

lemma matchCourseCode_spec:
  "matchCourseCode n c \<noteq> None \<longleftrightarrow>
     (\<exists>k \<in> set [2 ..< n + 1]. k \<le> length c \<and> list_all isUpper (take k c) \<and>
        (length (drop k c) = 3 \<or> length (drop k c) = 4) \<and> list_all isDigit (drop k c))"
    (is "?L \<longleftrightarrow> ?R")
proof
  assume ?L
  let ?k = "length (takeWhile isUpper c)"
  have tk: "take ?k c = takeWhile isUpper c" by (rule takeWhile_eq_take[symmetric])
  have dk: "drop ?k c = dropWhile isUpper c" by (rule dropWhile_eq_drop[symmetric])
  have up: "list_all isUpper (takeWhile isUpper c)"
    by (simp add: list_all_iff) (meson set_takeWhileD)
  from \<open>?L\<close> have "2 \<le> ?k" "?k \<le> n" "3 \<le> length (dropWhile isUpper c)"
    "length (dropWhile isUpper c) \<le> 4" "list_all isDigit (dropWhile isUpper c)"
    by (auto simp: matchCourseCode_def Let_def split: if_splits)
  moreover have "?k \<le> length c" by (rule length_takeWhile_le)
  moreover have "length (dropWhile isUpper c) = 3 \<or> length (dropWhile isUpper c) = 4"
    using calculation(3,4) by linarith
  ultimately show ?R using tk dk up by (intro bexI[of _ ?k]) auto
next
  assume ?R
  then obtain k where k: "2 \<le> k" "k \<le> n" "k \<le> length c" "list_all isUpper (take k c)"
    "length (drop k c) = 3 \<or> length (drop k c) = 4" "list_all isDigit (drop k c)"
    by auto
  from k(5) have ne: "drop k c \<noteq> []" by auto
  then have "isDigit (hd (drop k c))" using k(6) by (cases "drop k c") auto
  then have nu: "\<not> isUpper (hd (drop k c))" by (rule digit_not_upper)
  have c: "c = take k c @ drop k c" by simp
  have tw: "takeWhile isUpper c = take k c" "dropWhile isUpper c = drop k c"
    using takeWhile_split[OF k(4) ne nu] by simp_all
  have "length (take k c) = k" using k(3) by simp
  with k tw show ?L by (auto simp: matchCourseCode_def Let_def)
qed

lemma normalizeCourseCode_spec: "normalizeCourseCode line \<noteq> None \<longleftrightarrow> specCourseCode 4 line"
  unfolding normalizeCourseCode_compact specCourseCode_def Let_def
  using matchCourseCode_spec[of 4 "filter (\<lambda>c. \<not> isSpace c) (toUpperCase line)"]
  by simp

lemma parseScheduleCell_None_iff:
  "parseScheduleCell cellText = None \<longleftrightarrow>
     (case cellLines cellText of [] \<Rightarrow> True | line # rest \<Rightarrow> normalizeCourseCode line = None)"
  by (simp add: parseScheduleCell_def Let_def split: list.splits option.splits)

text \<open>
  Claim C8, as stated, fails: a first line of five letters and three digits is a course
  code by the claim's pattern, and the parser skips the cell.
\<close>

theorem parseScheduleCell_six_letters_counterexample:
  "specCourseCode 6 ''ABCDE123'' \<and>
   parseScheduleCell ''ABCDE123'' = None \<and>
   cellEvents ''SPRING 2026 K69'' 4 MORNING [''IT 01''] ['''', ''Morning'', ''ABCDE123''] (2, MON) = []"
  by code_simp

text \<open>
  Claim C8, amended. The first non-empty line of a day-column cell is accepted as a course
  code exactly when, without its white space and in upper case, it is 2 to 4 letters
  followed by 3 or 4 digits; when it is not, or the cell has no non-empty line, the cell
  is skipped and gives no schedule events.
\<close>

theorem parseScheduleCell_course_code:
  "(parseScheduleCell cellText \<noteq> None \<longleftrightarrow>
      (\<exists>line rest. cellLines cellText = line # rest \<and> specCourseCode 4 line)) \<and>
   (parseScheduleCell (cleanCell (cellAt row col)) = None \<longrightarrow>
      cellEvents sheetName rowIndex sess currentGroups row (col, day) = [])"
proof (intro conjI impI)
  show "parseScheduleCell cellText \<noteq> None \<longleftrightarrow>
      (\<exists>line rest. cellLines cellText = line # rest \<and> specCourseCode 4 line)"
    using normalizeCourseCode_spec
    by (cases "cellLines cellText") (auto simp: parseScheduleCell_None_iff)
next
  assume "parseScheduleCell (cleanCell (cellAt row col)) = None"
  then show "cellEvents sheetName rowIndex sess currentGroups row (col, day) = []"
    by (simp add: cellEvents_def Let_def)
qed

theorem parseScheduleCell_course_code_witness:
  "(\<exists>line rest. cellLines ''math 101'' = line # rest \<and> specCourseCode 4 line) \<and>
   \<not> (\<exists>line rest. cellLines ''ABCDE123'' = line # rest \<and> specCourseCode 4 line) \<and>
   cellEvents ''SPRING 2026 K69'' 4 MORNING [''IT 01''] ['''', ''Morning'', ''ABCDE123''] (2, MON) = []"
proof -
  have p1: "parseScheduleCell ''math 101'' \<noteq> None" by code_simp
  have p2: "parseScheduleCell ''ABCDE123'' = None" by code_simp
  have p3: "parseScheduleCell (cleanCell (cellAt ['''', ''Morning'', ''ABCDE123''] 2)) = None"
    by code_simp
  from parseScheduleCell_course_code[of "''math 101''"] p1
  have a: "\<exists>line rest. cellLines ''math 101'' = line # rest \<and> specCourseCode 4 line"
    by blast
  from parseScheduleCell_course_code[of "''ABCDE123''"] p2
  have b: "\<not> (\<exists>line rest. cellLines ''ABCDE123'' = line # rest \<and> specCourseCode 4 line)"
    by blast
  from parseScheduleCell_course_code[of _ "['''', ''Morning'', ''ABCDE123'']" 2] p3
  have c: "cellEvents ''SPRING 2026 K69'' 4 MORNING [''IT 01''] ['''', ''Morning'', ''ABCDE123''] (2, MON) = []"
    by blast
  from a b c show ?thesis by blast
qed

section \<open>Proofs: inline class-group hints\<close>

lemma groupLabel_nonempty: "groupLabel n \<noteq> []"
  by (simp add: groupLabel_def)

lemma normalizeClassGroup_nonempty: "normalizeClassGroup m = Some h \<Longrightarrow> h \<noteq> []"
  by (auto simp: normalizeClassGroup_def groupLabel_nonempty split: option.splits)

lemma parseScheduleCell_hint_nonempty:
  "parseScheduleCell t = Some p \<Longrightarrow> pc_classHint p = Some h \<Longrightarrow> h \<noteq> []"
  by (auto simp: parseScheduleCell_def Let_def dest: normalizeClassGroup_nonempty
           split: list.splits option.splits)

lemma cellLines_Nil: "cellLines [] = []"
  by (simp add: cellLines_def cleanCell_def trim_def)

lemma parseScheduleCell_Nil: "parseScheduleCell [] = None"
  by (simp add: parseScheduleCell_def cellLines_Nil)

lemma cellEvents_names:
  "map ev_classGroupName (cellEvents sheetName rowIndex sess groups row cd) =
     (case parseScheduleCell (cleanCell (cellAt row (fst cd))) of
        None \<Rightarrow> []
      | Some p \<Rightarrow> (case pc_classHint p of Some h \<Rightarrow> [h] | None \<Rightarrow> groups))"
proof (cases "parseScheduleCell (cleanCell (cellAt row (fst cd)))")
  case None
  then show ?thesis by (simp add: cellEvents_def Let_def)
next
  case (Some p)
  then have ne: "cleanCell (cellAt row (fst cd)) \<noteq> []"
    using parseScheduleCell_Nil by auto
  show ?thesis
  proof (cases "pc_classHint p")
    case None
    with Some ne show ?thesis by (simp add: cellEvents_def Let_def comp_def)
  next
    case Some2: (Some h)
    then have "h \<noteq> []" using parseScheduleCell_hint_nonempty[OF Some] by simp
    with Some Some2 ne show ?thesis by (simp add: cellEvents_def Let_def comp_def)
  qed
qed

lemma upper_arith_I:
  "((if (97 \<le> n \<and> n \<le> 122) \<or> (224 \<le> n \<and> n \<le> 254 \<and> n \<noteq> 247) then n - 32 else n) = 73)
     \<longleftrightarrow> n = 73 \<or> n = 105"
  for n :: nat
  by (cases "(97 \<le> n \<and> n \<le> 122) \<or> (224 \<le> n \<and> n \<le> 254 \<and> n \<noteq> 247)"; simp only: if_True if_False; arith)

lemma upper_arith_T:
  "((if (97 \<le> n \<and> n \<le> 122) \<or> (224 \<le> n \<and> n \<le> 254 \<and> n \<noteq> 247) then n - 32 else n) = 84)
     \<longleftrightarrow> n = 84 \<or> n = 116"
  for n :: nat
  by (cases "(97 \<le> n \<and> n \<le> 122) \<or> (224 \<le> n \<and> n \<le> 254 \<and> n \<noteq> 247)"; simp only: if_True if_False; arith)

lemma upperChar_eq_I: "upperChar c = CHR ''I'' \<longleftrightarrow> c = CHR ''I'' \<or> c = CHR ''i''"
proof -
  define n where "n = (of_char c :: nat)"
  have "upperChar c = CHR ''I'' \<longleftrightarrow> (of_char (upperChar c) :: nat) = 73"
    by (simp add: char_eq_code[of "upperChar c"] del: of_char_eq_iff)
  also have "\<dots> \<longleftrightarrow> n = 73 \<or> n = 105"
    unfolding of_char_upperChar isLower_def isLatinLower_def n_def[symmetric]
    by (rule upper_arith_I)
  also have "\<dots> \<longleftrightarrow> c = CHR ''I'' \<or> c = CHR ''i''"
    unfolding n_def by (simp add: char_eq_code[of c] del: of_char_eq_iff)
  finally show ?thesis .
qed

lemma upperChar_eq_T: "upperChar c = CHR ''T'' \<longleftrightarrow> c = CHR ''T'' \<or> c = CHR ''t''"
proof -
  define n where "n = (of_char c :: nat)"
  have "upperChar c = CHR ''T'' \<longleftrightarrow> (of_char (upperChar c) :: nat) = 84"
    by (simp add: char_eq_code[of "upperChar c"] del: of_char_eq_iff)
  also have "\<dots> \<longleftrightarrow> n = 84 \<or> n = 116"
    unfolding of_char_upperChar isLower_def isLatinLower_def n_def[symmetric]
    by (rule upper_arith_T)
  also have "\<dots> \<longleftrightarrow> c = CHR ''T'' \<or> c = CHR ''t''"
    unfolding n_def by (simp add: char_eq_code[of c] del: of_char_eq_iff)
  finally show ?thesis .
qed

lemma upperChar_IT: "upperChar CHR ''I'' = CHR ''I''" "upperChar CHR ''T'' = CHR ''T''"
  "upperChar CHR ''i'' = CHR ''I''" "upperChar CHR ''t'' = CHR ''T''"
  by code_simp+

lemma prefixCI_IT:
  "prefixCI ''IT'' s \<longleftrightarrow>
     (\<exists>i t r. s = i # t # r \<and> (i = CHR ''I'' \<or> i = CHR ''i'') \<and> (t = CHR ''T'' \<or> t = CHR ''t''))"
proof (cases s)
  case Nil
  then show ?thesis by (simp add: prefixCI_def)
next
  case (Cons i s1)
  show ?thesis
  proof (cases s1)
    case Nil
    with Cons show ?thesis by (simp add: prefixCI_def)
  next
    case C2: (Cons t r)
    have "prefixCI ''IT'' (i # t # r) \<longleftrightarrow> upperChar i = CHR ''I'' \<and> upperChar t = CHR ''T''"
      by (simp add: prefixCI_def upperChar_IT)
    then show ?thesis unfolding Cons C2
      by (simp only: upperChar_eq_I upperChar_eq_T) blast
  qed
qed

lemma upperUnits_plain:
  "isSpace c \<or> isDigit c \<Longrightarrow> upperUnits c = [c]"
  by (auto simp: upperUnits_def upperChar_def isSpace_code isDigit_def isLower_def isLatinLower_def
                 char_eq_code[of c] simp del: of_char_eq_iff)

lemma toUpperCase_plain:
  "list_all (\<lambda>c. isSpace c \<or> isDigit c) s \<Longrightarrow> toUpperCase s = s"
proof (induction s)
  case Nil
  show ?case by (simp add: toUpperCase_def)
next
  case (Cons c s)
  then have "upperUnits c = [c]" "toUpperCase s = s" by (simp_all add: upperUnits_plain)
  then show ?case by (simp add: toUpperCase_def)
qed

lemma toUpperCase_append: "toUpperCase (a @ b) = toUpperCase a @ toUpperCase b"
  by (simp add: toUpperCase_def)

lemma upperUnits_IT: "upperUnits CHR ''I'' = ''I''" "upperUnits CHR ''T'' = ''T''"
  "upperUnits CHR ''i'' = ''I''" "upperUnits CHR ''t'' = ''T''"
  by code_simp+

lemma toUpperCase_IT:
  "(i = CHR ''I'' \<or> i = CHR ''i'') \<Longrightarrow> (t = CHR ''T'' \<or> t = CHR ''t'') \<Longrightarrow>
     toUpperCase [i, t] = ''IT''"
  unfolding toUpperCase_def by (elim disjE) (simp_all only: list.map concat.simps upperUnits_IT append.simps)

lemma digit_not_space: "isDigit c \<Longrightarrow> \<not> isSpace c"
  by (auto simp: isSpace_code isDigit_def)

lemma showNat_small: "n < 10 \<Longrightarrow> showNat n = [char_of (48 + n)]"
  by (subst showNat.simps) simp

lemma showNat_two: "10 \<le> n \<Longrightarrow> n < 100 \<Longrightarrow> showNat n = [char_of (48 + n div 10), char_of (48 + n mod 10)]"
proof -
  assume a: "10 \<le> n" "n < 100"
  then have d: "n div 10 < 10" by simp
  from a have n: "\<not> n < 10" by simp
  have "showNat n = showNat (n div 10) @ [char_of (48 + n mod 10)]"
    by (subst showNat.simps) (simp only: n if_False)
  then show ?thesis by (simp only: showNat_small[OF d] append.simps)
qed

lemma char_of_48: "char_of (48 :: nat) = CHR ''0''"
  by code_simp

lemma groupLabel_tokenGroup: "n < 100 \<Longrightarrow> groupLabel n = tokenGroup n"
proof (cases "n < 10")
  case True
  then show ?thesis by (simp add: groupLabel_def tokenGroup_def showNat_small char_of_48)
next
  case False
  assume "n < 100"
  with False show ?thesis by (simp add: groupLabel_def tokenGroup_def showNat_two)
qed

lemma digitValue_le: "isDigit c \<Longrightarrow> digitValue c \<le> 9"
  unfolding isDigit_def digitValue_def by linarith

lemma parseInt_decimal:
  "length cap \<le> 2 \<Longrightarrow> parseInt cap = decimal cap"
proof (cases cap)
  case Nil
  then show ?thesis by (simp add: parseInt_def)
next
  case (Cons a r)
  assume "length cap \<le> 2"
  with Cons show ?thesis by (cases r) (simp_all add: parseInt_def digitValue_def)
qed

lemma decimal_take2: "decimal (take 2 ds) = decimal ds"
proof (cases ds)
  case Nil
  then show ?thesis by simp
next
  case (Cons a r)
  then show ?thesis by (cases r) (simp_all add: numeral_2_eq_2)
qed

lemma decimal_lt: "list_all isDigit ds \<Longrightarrow> decimal ds < 100"
proof (cases ds)
  case Nil
  then show ?thesis by simp
next
  case (Cons a r)
  assume d: "list_all isDigit ds"
  show ?thesis
  proof (cases r)
    case Nil
    with Cons d digitValue_le[of a] show ?thesis by simp
  next
    case C2: (Cons b r2)
    with Cons d digitValue_le[of a] digitValue_le[of b] show ?thesis by simp
  qed
qed

lemma capture_label:
  assumes "list_all isDigit ds"
  shows "groupLabel (parseInt (take 2 ds)) = tokenGroup (decimal ds)"
proof -
  have "parseInt (take 2 ds) = decimal (take 2 ds)" by (rule parseInt_decimal) simp
  then have "parseInt (take 2 ds) = decimal ds" by (simp only: decimal_take2)
  then show ?thesis using decimal_lt[OF assms] by (simp add: groupLabel_tokenGroup)
qed

lemma takeWhile_all: "list_all P xs \<Longrightarrow> takeWhile P xs = xs"
  by (induction xs) simp_all

lemma take2_short: "length xs \<le> 2 \<Longrightarrow> take 2 xs = xs"
  by simp

lemma normalizeClassGroup_match:
  assumes it: "i = CHR ''I'' \<or> i = CHR ''i''" "t = CHR ''T'' \<or> t = CHR ''t''"
    and sp: "list_all isSpace sp"
    and cap: "cap \<noteq> []" "list_all isDigit cap" "length cap \<le> 2"
    and z: "z = [CHR ''0''] \<or> (z = [] \<and> (hd cap = CHR ''0'' \<longrightarrow> length cap = 1))"
  shows "normalizeClassGroup ([i, t] @ sp @ z @ cap) = Some (groupLabel (parseInt cap))"
proof -
  have zd: "list_all isDigit z" using z by (auto simp: isDigit_def)
  have plain: "list_all (\<lambda>c. isSpace c \<or> isDigit c) (sp @ z @ cap)"
    using sp cap(2) zd by (auto simp: list_all_iff)
  have up: "toUpperCase ([i, t] @ sp @ z @ cap) = CHR ''I'' # CHR ''T'' # (sp @ z @ cap)"
    using toUpperCase_IT[OF it] toUpperCase_plain[OF plain]
    by (simp only: toUpperCase_append) simp
  have z0d: "isDigit CHR ''0''" by (simp add: isDigit_def)
  have "isDigit (hd (z @ cap))"
  proof (cases cap)
    case Nil
    with cap(1) show ?thesis by simp
  next
    case (Cons c1 r1)
    with cap(2) have "isDigit c1" by simp
    with z z0d Cons show ?thesis by auto
  qed
  then have body: "z @ cap \<noteq> []" "\<not> isSpace (hd (z @ cap))"
    using cap(1) by (simp_all add: digit_not_space)
  have dw: "dropWhile isSpace (sp @ z @ cap) = z @ cap" "takeWhile isSpace (sp @ z @ cap) = sp"
    using takeWhile_split[OF sp body] by simp_all
  have tk: "take 2 (takeWhile isDigit cap) = cap"
    using cap by (simp add: takeWhile_all)
  have "matchITAt False (CHR ''I'' # CHR ''T'' # (sp @ z @ cap)) = Some ([CHR ''I'', CHR ''T''] @ sp @ z @ cap, cap)"
  proof -
    from z show ?thesis
    proof
      assume z0: "z = [CHR ''0'']"
      have c: "cap \<noteq> [] \<and> isDigit (hd cap)" using cap by (cases cap) simp_all
      show ?thesis
        unfolding matchITAt_def using dw c tk unfolding z0
        by (simp add: Let_def)
    next
      assume z1: "z = [] \<and> (hd cap = CHR ''0'' \<longrightarrow> length cap = 1)"
      from cap(1) obtain c1 r1 where c1: "cap = c1 # r1" by (cases cap) auto
      have d1: "isDigit c1" using cap(2) c1 by simp
      have n0: "\<not> (c1 = CHR ''0'' \<and> r1 \<noteq> [] \<and> isDigit (hd r1))" using z1 c1 by auto
      have tk': "take 2 (takeWhile isDigit (c1 # r1)) = c1 # r1" using tk c1 by simp
      have dw': "dropWhile isSpace (sp @ c1 # r1) = c1 # r1" "takeWhile isSpace (sp @ c1 # r1) = sp"
        using dw z1 c1 by simp_all
      show ?thesis
        unfolding matchITAt_def using z1 unfolding c1
        using dw' n0 d1 tk' by (auto simp add: Let_def simp del: takeWhile.simps take_Cons')
    qed
  qed
  then have "findIT False (toUpperCase ([i, t] @ sp @ z @ cap)) = Some ([CHR ''I'', CHR ''T''] @ sp @ z @ cap, cap)"
    unfolding up by simp
  then show ?thesis by (simp add: normalizeClassGroup_def)
qed

lemma list_all_takeWhile: "list_all P (takeWhile P xs)"
  by (induction xs) simp_all

lemma hint_at:
  "(case matchITAt True s of Some (m, cap) \<Rightarrow> normalizeClassGroup m | None \<Rightarrow> None)
     = map_option tokenGroup (tokenAt s) \<and>
   (matchITAt True s = None \<longleftrightarrow> tokenAt s = None)"
proof (cases "prefixCI ''IT'' s")
  case False
  then have "tokenAt s = None"
    unfolding prefixCI_IT tokenAt_def by (auto split: list.splits)
  with False show ?thesis by (simp add: matchITAt_def)
next
  case True
  then obtain i t r where s: "s = i # t # r"
    and it: "i = CHR ''I'' \<or> i = CHR ''i''" "t = CHR ''T'' \<or> t = CHR ''t''"
    unfolding prefixCI_IT by blast
  define sp where "sp = takeWhile isSpace r"
  define rest where "rest = dropWhile isSpace r"
  define ds where "ds = takeWhile isDigit rest"
  have sp: "list_all isSpace sp" unfolding sp_def by (rule list_all_takeWhile)
  have dsd: "list_all isDigit ds" unfolding ds_def by (rule list_all_takeWhile)
  have tok: "tokenAt s =
      (if ds = [] then None
       else if hd ds = CHR ''0'' \<and> length ds \<ge> 2 then Some (decimal (tl ds))
       else Some (decimal ds))"
    unfolding s tokenAt_def ds_def rest_def using it by (simp add: Let_def)
  have m: "matchITAt True s =
      (case rest of
         [] \<Rightarrow> None
       | c1 # r1 \<Rightarrow>
           if c1 = CHR ''0'' \<and> r1 \<noteq> [] \<and> isDigit (hd r1) then
             Some ([i, t] @ sp @ [c1] @ take 2 (takeWhile isDigit r1), take 2 (takeWhile isDigit r1))
           else if isDigit c1 then
             Some ([i, t] @ sp @ take 2 (takeWhile isDigit rest), take 2 (takeWhile isDigit rest))
           else None)"
  proof -
    have t2: "take 2 (i # t # r) = [i, t]" "drop 2 (i # t # r) = r" by (simp_all add: numeral_2_eq_2)
    show ?thesis
      using True unfolding matchITAt_def s t2 sp_def[symmetric] rest_def[symmetric]
      by (cases rest) (simp_all add: Let_def)
  qed
  show ?thesis
  proof (cases rest)
    case Nil
    then have "ds = []" by (simp add: ds_def)
    with Nil show ?thesis by (simp add: m tok)
  next
    case (Cons c1 r1)
    show ?thesis
    proof (cases "c1 = CHR ''0'' \<and> r1 \<noteq> [] \<and> isDigit (hd r1)")
      case z: True
      define cap where "cap = take 2 (takeWhile isDigit r1)"
      from z obtain c2 r2 where r1: "r1 = c2 # r2" and c2: "isDigit c2" by (cases r1) auto
      have z0d: "isDigit CHR ''0''" by (simp add: isDigit_def)
      have ds1: "ds = CHR ''0'' # takeWhile isDigit r1"
        using z z0d by (simp add: ds_def Cons)
      have tw: "takeWhile isDigit r1 \<noteq> []" using r1 c2 by simp
      have capne: "cap \<noteq> []" using r1 c2 by (simp add: cap_def numeral_2_eq_2)
      have capd: "list_all isDigit cap" unfolding cap_def
        using list_all_takeWhile[of isDigit r1] by (auto simp: list_all_iff dest: in_set_takeD)
      have capl: "length cap \<le> 2" by (simp add: cap_def)
      have "matchITAt True s = Some ([i, t] @ sp @ [CHR ''0''] @ cap, cap)"
        using z by (simp add: m Cons cap_def)
      moreover have "normalizeClassGroup ([i, t] @ sp @ [CHR ''0''] @ cap) = Some (groupLabel (parseInt cap))"
        by (rule normalizeClassGroup_match[OF it sp capne capd capl]) simp
      moreover have "groupLabel (parseInt cap) = tokenGroup (decimal (takeWhile isDigit r1))"
        unfolding cap_def by (rule capture_label) (rule list_all_takeWhile)
      moreover have "tokenAt s = Some (decimal (takeWhile isDigit r1))"
        using tw by (simp add: tok ds1 Suc_le_eq numeral_2_eq_2)
      ultimately show ?thesis by simp
    next
      case nz: False
      show ?thesis
      proof (cases "isDigit c1")
        case False
        then have "ds = []" by (simp add: ds_def Cons)
        with False nz Cons show ?thesis by (simp add: m tok)
      next
        case d1: True
        define cap where "cap = take 2 ds"
        have ds1: "ds = c1 # takeWhile isDigit r1" using d1 by (simp add: ds_def Cons)
        have capne: "cap \<noteq> []" by (simp add: cap_def ds1 numeral_2_eq_2)
        have capd: "list_all isDigit cap" unfolding cap_def
          using dsd by (auto simp: list_all_iff dest: in_set_takeD)
        have capl: "length cap \<le> 2" by (simp add: cap_def)
        have one: "c1 = CHR ''0'' \<Longrightarrow> takeWhile isDigit r1 = []"
          using nz by (cases r1) auto
        have hd0: "hd cap = CHR ''0'' \<longrightarrow> length cap = 1"
          using one by (auto simp: cap_def ds1 numeral_2_eq_2)
        have "matchITAt True s = Some ([i, t] @ sp @ cap, cap)"
        proof -
          have c: "(c1 = CHR ''0'' \<and> r1 \<noteq> [] \<and> isDigit (hd r1)) = False" using nz by simp
          show ?thesis unfolding m Cons list.case c if_False cap_def ds_def
            using d1 by (simp only: if_True Cons)
        qed
        moreover have "normalizeClassGroup ([i, t] @ sp @ [] @ cap) = Some (groupLabel (parseInt cap))"
          by (rule normalizeClassGroup_match[OF it sp capne capd capl]) (simp add: hd0)
        moreover have "groupLabel (parseInt cap) = tokenGroup (decimal ds)"
          unfolding cap_def by (rule capture_label) (rule dsd)
        moreover have "tokenAt s = Some (decimal ds)"
          using one by (auto simp add: tok ds1)
        ultimately show ?thesis by simp
      qed
    qed
  qed
qed

lemma hint_first:
  "(case findIT True t of Some (m, cap) \<Rightarrow> normalizeClassGroup m | None \<Rightarrow> None)
     = map_option tokenGroup (firstToken t)"
proof (induction t)
  case Nil
  show ?case by simp
next
  case (Cons c cs)
  note h = hint_at[of "c # cs"]
  show ?case
  proof (cases "matchITAt True (c # cs)")
    case None
    with h have "tokenAt (c # cs) = None" by simp
    with None Cons show ?thesis by simp
  next
    case (Some mc)
    with h obtain n where n: "tokenAt (c # cs) = Some n" by auto
    from h Some n show ?thesis by simp
  qed
qed

lemma parseScheduleCell_hint:
  assumes "parseScheduleCell cellText = Some p"
  shows "pc_classHint p = inlineHint cellText"
proof -
  from assms obtain line0 others code0 where
    l: "cellLines cellText = line0 # others" and c: "normalizeCourseCode line0 = Some code0"
    by (auto simp: parseScheduleCell_def Let_def split: list.splits option.splits)
  define timeText where
    "timeText = (if length (line0 # others) > 2 then cleanCell ((line0 # others) ! 2) else cellText)"
  have p: "pc_classHint p =
     (case findIT True timeText of Some (m, cap) \<Rightarrow> normalizeClassGroup m | None \<Rightarrow> None)"
    using assms unfolding parseScheduleCell_def l timeText_def
    by (auto simp: Let_def c)
  have "hintText cellText = timeText"
  proof (cases others)
    case Nil
    then show ?thesis by (simp add: hintText_def l timeText_def)
  next
    case (Cons line1 r)
    then show ?thesis by (cases r) (simp_all add: hintText_def l timeText_def)
  qed
  then show ?thesis unfolding p inlineHint_def by (simp only: hint_first)
qed

lemma parseScheduleCell_cellCode:
  "parseScheduleCell cellText = None \<longleftrightarrow> cellCode cellText = None"
  by (simp add: parseScheduleCell_None_iff cellCode_def split: list.splits)

lemma cellEvents_by_hint:
  "map ev_classGroupName (cellEvents sheetName rowIndex sess groups row cd) =
     (if cellCode (cleanCell (cellAt row (fst cd))) = None then []
      else case inlineHint (cleanCell (cellAt row (fst cd))) of
             Some h \<Rightarrow> [h]
           | None \<Rightarrow> groups)"
proof (cases "parseScheduleCell (cleanCell (cellAt row (fst cd)))")
  case None
  then show ?thesis
    using parseScheduleCell_cellCode[of "cleanCell (cellAt row (fst cd))"]
    by (simp add: cellEvents_names)
next
  case (Some p)
  then have "cellCode (cleanCell (cellAt row (fst cd))) \<noteq> None"
    using parseScheduleCell_cellCode[of "cleanCell (cellAt row (fst cd))"] by simp
  with Some parseScheduleCell_hint[OF Some] show ?thesis
    by (auto simp add: cellEvents_names split: option.splits)
qed

lemma cellEvents_no_hint:
  assumes "inlineHint (cleanCell (cellAt row (fst cd))) = None"
  shows "cellEvents sheetName rowIndex sess [] row cd = []"
proof -
  have "map ev_classGroupName (cellEvents sheetName rowIndex sess [] row cd) = []"
    using assms by (simp add: cellEvents_by_hint)
  then show ?thesis by simp
qed

lemma cellEvents_hint_names:
  assumes "inlineHint (cleanCell (cellAt row (fst cd))) = Some h"
  shows "map ev_classGroupName (cellEvents sheetName rowIndex sess groups row cd) =
           (if cellCode (cleanCell (cellAt row (fst cd))) = None then [] else [h])"
  using assms by (simp add: cellEvents_by_hint)

lemma Un_subset_weaken: "A \<subseteq> C \<union> D \<Longrightarrow> B \<subseteq> D \<Longrightarrow> A \<union> B \<subseteq> C \<union> D"
  by blast

lemma scanRows_undeclared:
  assumes "\<forall>r \<in> set rows. \<not> looksLikeClassGroupRow (cleanCell (cellAt r 1))"
  shows "set (scanRows foldText sheetName rowIndex rows [] events) \<subseteq>
           set events \<union> {ev. \<exists>r \<in> set rows. \<exists>cd \<in> set DAY_COLUMN_MAP.
                              inlineHint (cleanCell (cellAt r (fst cd))) = Some (ev_classGroupName ev)}"
  using assms
proof (induction rows arbitrary: rowIndex events)
  case Nil
  show ?case by simp
next
  case (Cons row rows)
  let ?H = "\<lambda>rs. {ev. \<exists>r \<in> set rs. \<exists>cd \<in> set DAY_COLUMN_MAP.
                              inlineHint (cleanCell (cellAt r (fst cd))) = Some (ev_classGroupName ev)}"
  have mono: "?H rows \<subseteq> ?H (row # rows)" by auto
  have nd: "\<not> looksLikeClassGroupRow (cleanCell (cellAt row 1))" using Cons.prems by simp
  have IH: "\<And>i evs. set (scanRows foldText sheetName i rows [] evs) \<subseteq> set evs \<union> ?H rows"
    using Cons.IH Cons.prems by simp
  have new: "\<And>sess. set (concat (map (cellEvents sheetName rowIndex sess [] row) DAY_COLUMN_MAP))
               \<subseteq> ?H (row # rows)"
  proof
    fix sess ev
    assume "ev \<in> set (concat (map (cellEvents sheetName rowIndex sess [] row) DAY_COLUMN_MAP))"
    then obtain cd where cd: "cd \<in> set DAY_COLUMN_MAP"
      "ev \<in> set (cellEvents sheetName rowIndex sess [] row cd)" by auto
    then have "inlineHint (cleanCell (cellAt row (fst cd))) \<noteq> None"
      using cellEvents_no_hint by fastforce
    then obtain h where h: "inlineHint (cleanCell (cellAt row (fst cd))) = Some h" by auto
    from cd(2) have "ev_classGroupName ev \<in>
        set (map ev_classGroupName (cellEvents sheetName rowIndex sess [] row cd))"
      by simp
    then have "ev_classGroupName ev = h"
      unfolding cellEvents_hint_names[OF h] by (simp split: if_splits)
    with h cd(1) show "ev \<in> ?H (row # rows)" by auto
  qed
  show ?case
  proof (cases "isFooter (cleanCell (cellAt row 1))")
    case True
    then show ?thesis by (simp add: Let_def)
  next
    case False
    show ?thesis
    proof (cases "getSessionPeriod foldText (cleanCell (cellAt row 1)) = UNKNOWN")
      case True
      with False nd have "scanRows foldText sheetName rowIndex (row # rows) [] events =
          scanRows foldText sheetName (rowIndex + 1) rows [] events"
        by (simp add: Let_def)
      with IH[of "rowIndex + 1" events] mono show ?thesis by auto
    next
      case U: False
      let ?new = "concat (map (cellEvents sheetName rowIndex
                     (getSessionPeriod foldText (cleanCell (cellAt row 1))) [] row) DAY_COLUMN_MAP)"
      from False nd U have "scanRows foldText sheetName rowIndex (row # rows) [] events =
          scanRows foldText sheetName (rowIndex + 1) rows [] (events @ ?new)"
        by (simp add: Let_def)
      then have "set (scanRows foldText sheetName rowIndex (row # rows) [] events) =
          set (scanRows foldText sheetName (rowIndex + 1) rows [] (events @ ?new))"
        by simp
      also have "\<dots> \<subseteq> set (events @ ?new) \<union> ?H rows"
        by (rule IH)
      also have "\<dots> \<subseteq> set events \<union> ?H (row # rows)"
      proof -
        have "set (events @ ?new) \<subseteq> set events \<union> ?H (row # rows)"
          using new by auto
        then show ?thesis using mono by (rule Un_subset_weaken)
      qed
      finally show ?thesis .
    qed
  qed
qed

text \<open>
  Claim C10, as stated, fails: a cell may carry a class-group token that the parser does
  not read. The cell below has the token IT 05 on its second line; under the declared
  group IT 01 its event targets IT 01, not IT 05.
\<close>

theorem cellEvents_token_on_room_line_counterexample:
  "textHint (cleanCell (cellAt rowRoomToken 2)) = Some ''IT 05'' \<and>
   map ev_classGroupName (cellEvents ''SPRING 2026 K69'' 4 MORNING [''IT 01''] rowRoomToken (2, MON))
     = [''IT 01''] \<and>
   map ev_classGroupName (cellEvents ''SPRING 2026 K69'' 4 MORNING [''IT 01''] rowRoomToken (2, MON))
     \<noteq> [''IT 05'']"
  by code_simp

text \<open>
  Claim C10, amended. The inline hint of a cell is the leftmost class-group token of its
  third non-empty line, or of its whole text when the cell has fewer than three
  non-empty lines. With no class group declared, a cell of a session row without an
  inline hint gives no events; a cell with an inline hint, whose first line is a course
  code, gives one event, for the hinted group alone, whatever groups are declared (and
  no event when its first line is not a course code); and as long as the scan has met no
  declaration row, every event it has produced targets the hinted group of a cell with
  an inline hint.
\<close>

theorem cellEvents_inline_hint:
  "(inlineHint (cleanCell (cellAt row col)) = None \<longrightarrow>
      cellEvents sheetName rowIndex sess [] row (col, day) = []) \<and>
   (inlineHint (cleanCell (cellAt row col)) = Some h \<longrightarrow>
      map ev_classGroupName (cellEvents sheetName rowIndex sess currentGroups row (col, day)) =
        (if cellCode (cleanCell (cellAt row col)) = None then [] else [h])) \<and>
   ((\<forall>r \<in> set rows. \<not> looksLikeClassGroupRow (cleanCell (cellAt r 1))) \<longrightarrow>
      (\<forall>ev \<in> set (scanRows foldText sheetName rowIndex rows [] []).
         \<exists>r \<in> set rows. \<exists>cd \<in> set DAY_COLUMN_MAP.
            inlineHint (cleanCell (cellAt r (fst cd))) = Some (ev_classGroupName ev)))"
proof (intro conjI impI)
  assume "inlineHint (cleanCell (cellAt row col)) = None"
  then show "cellEvents sheetName rowIndex sess [] row (col, day) = []"
    using cellEvents_no_hint[of row "(col, day)"] by simp
next
  assume "inlineHint (cleanCell (cellAt row col)) = Some h"
  then show "map ev_classGroupName (cellEvents sheetName rowIndex sess currentGroups row (col, day)) =
        (if cellCode (cleanCell (cellAt row col)) = None then [] else [h])"
    using cellEvents_hint_names[of row "(col, day)"] by simp
next
  assume "\<forall>r \<in> set rows. \<not> looksLikeClassGroupRow (cleanCell (cellAt r 1))"
  from scanRows_undeclared[OF this, of foldText sheetName rowIndex "[]"]
  show "\<forall>ev \<in> set (scanRows foldText sheetName rowIndex rows [] []).
         \<exists>r \<in> set rows. \<exists>cd \<in> set DAY_COLUMN_MAP.
            inlineHint (cleanCell (cellAt r (fst cd))) = Some (ev_classGroupName ev)"
    by auto
qed

theorem cellEvents_inline_hint_witness:
  "inlineHint (cleanCell (cellAt rowHint 2)) = Some ''IT 07'' \<and>
   cellCode (cleanCell (cellAt rowHint 2)) = Some ''CS 2255'' \<and>
   map ev_classGroupName (cellEvents ''SPRING 2026 K69'' 4 MORNING [''IT 01''] rowHint (2, MON))
     = [''IT 07''] \<and>
   inlineHint (cleanCell (cellAt rowPlain 2)) = None \<and>
   cellEvents ''SPRING 2026 K69'' 4 MORNING [] rowPlain (2, MON) = [] \<and>
   map ev_classGroupName (scanRows asciiLower ''SPRING 2026 K69'' 4 [rowPlain, rowHint] [] [])
     = [''IT 07''] \<and>
   (\<exists>r \<in> set [rowPlain, rowHint]. \<exists>cd \<in> set DAY_COLUMN_MAP.
      inlineHint (cleanCell (cellAt r (fst cd))) = Some ''IT 07'')"
proof -
  define S where "S = scanRows asciiLower ''SPRING 2026 K69'' 4 [rowPlain, rowHint] [] []"
  have h1: "inlineHint (cleanCell (cellAt rowHint 2)) = Some ''IT 07''" by code_simp
  have h1c: "cellCode (cleanCell (cellAt rowHint 2)) = Some ''CS 2255''" by code_simp
  have h2: "inlineHint (cleanCell (cellAt rowPlain 2)) = None" by code_simp
  have h3: "\<forall>r \<in> set [rowPlain, rowHint]. \<not> looksLikeClassGroupRow (cleanCell (cellAt r 1))"
    by code_simp
  have h4: "map ev_classGroupName S = [''IT 07'']" unfolding S_def by code_simp
  note t1 = cellEvents_inline_hint[of rowHint 2 "''SPRING 2026 K69''" 4 MORNING MON "''IT 07''"
              "[''IT 01'']" "[rowPlain, rowHint]" asciiLower]
  note t2 = cellEvents_inline_hint[of rowPlain 2 "''SPRING 2026 K69''" 4 MORNING MON "''IT 07''"
              "[''IT 01'']" "[rowPlain, rowHint]" asciiLower]
  from t1 h1 have "map ev_classGroupName
      (cellEvents ''SPRING 2026 K69'' 4 MORNING [''IT 01''] rowHint (2, MON)) =
        (if cellCode (cleanCell (cellAt rowHint 2)) = None then [] else [''IT 07''])"
    by blast
  then have a: "map ev_classGroupName
      (cellEvents ''SPRING 2026 K69'' 4 MORNING [''IT 01''] rowHint (2, MON)) = [''IT 07'']"
    unfolding h1c by simp
  from t2 h2 have b: "cellEvents ''SPRING 2026 K69'' 4 MORNING [] rowPlain (2, MON) = []"
    by blast
  from t1 h3 have c: "\<forall>ev \<in> set S.
      \<exists>r \<in> set [rowPlain, rowHint]. \<exists>cd \<in> set DAY_COLUMN_MAP.
         inlineHint (cleanCell (cellAt r (fst cd))) = Some (ev_classGroupName ev)"
    unfolding S_def by blast
  from h4 obtain ev where ev: "ev \<in> set S" "ev_classGroupName ev = ''IT 07''"
    by (cases S) auto
  from c ev have d: "\<exists>r \<in> set [rowPlain, rowHint]. \<exists>cd \<in> set DAY_COLUMN_MAP.
      inlineHint (cleanCell (cellAt r (fst cd))) = Some ''IT 07''"
    by metis
  from h1 h1c a h2 b h4 d show ?thesis unfolding S_def by blast
qed

section \<open>Proofs: refresh of a cohort\<close>

lemma map_snd_zip_upt: "map snd (zip [0 ..< length xs] xs) = xs"
  by (simp add: map_snd_zip)

lemma set_insertName: "set (insertName le x ys) = insert x (set ys)"
  by (induction ys) auto

lemma distinct_insertName: "distinct ys \<Longrightarrow> x \<notin> set ys \<Longrightarrow> distinct (insertName le x ys)"
  by (induction ys) (auto simp: set_insertName)


lemma set_sortNames: "set (sortNames le xs) = set xs"
  by (induction xs) (simp_all add: sortNames_def set_insertName)

lemma sortNames_Cons: "sortNames le (x # xs) = insertName le x (sortNames le xs)"
  by (simp add: sortNames_def)

lemma sortNames_Nil: "sortNames le [] = []"
  by (simp add: sortNames_def)

lemma distinct_sortNames: "distinct xs \<Longrightarrow> distinct (sortNames le xs)"
  by (induction xs) (simp_all add: sortNames_Cons sortNames_Nil distinct_insertName set_sortNames)


lemma upsertCohort_existing:
  assumes "c0 \<in> set (cohorts d)" "coh_semesterId c0 = sem" "coh_code c0 = c"
  shows "\<exists>r. upsertCohort d sem c = (r, d) \<and> r \<in> set (cohorts d) \<and>
             coh_semesterId r = sem \<and> coh_code r = c"
proof (cases "find (\<lambda>r. coh_semesterId r = sem \<and> coh_code r = c) (cohorts d)")
  case None
  with assms show ?thesis by (auto simp: find_None_iff)
next
  case (Some r)
  then have "r \<in> set (cohorts d)" "coh_semesterId r = sem \<and> coh_code r = c"
    by (auto simp: find_Some_iff)
  with Some show ?thesis by (simp add: upsertCohort_def)
qed

lemma upsertCohort_key:
  "upsertCohort d sem c = (r, d1) \<Longrightarrow> coh_semesterId r = sem \<and> coh_code r = c"
  by (auto simp: upsertCohort_def Let_def find_Some_iff split: option.splits)

lemma upsertCohort_tables:
  "upsertCohort d sem c = (r, d1) \<Longrightarrow>
     classGroups d1 = classGroups d \<and> scheduleEntries d1 = scheduleEntries d \<and>
     courseRows d1 = courseRows d \<and> semesters d1 = semesters d \<and> nextId d \<le> nextId d1"
  by (auto simp: upsertCohort_def Let_def split: option.splits)

text \<open>The store after the two deletions of the refresh, whether or not they run.\<close>

lemma refresh_deletions:
  fixes d1 :: db and cid :: nat
  defines "ids \<equiv> map cg_id (filter (\<lambda>g. cg_cohortId g = cid) (classGroups d1))"
  defines "d2 \<equiv> (if length ids > 0 then deleteClassGroups ids (deleteEntriesOfGroups ids d1) else d1)"
  shows "classGroups d2 = filter (\<lambda>g. cg_id g \<notin> set ids) (classGroups d1)"
    and "scheduleEntries d2 = filter (\<lambda>e. ed_classGroupId (se_data e) \<notin> set ids) (scheduleEntries d1)"
    and "cohorts d2 = cohorts d1" and "nextId d2 = nextId d1"
    and "courseRows d2 = courseRows d1" and "semesters d2 = semesters d1"
    and "\<forall>g \<in> set (classGroups d2). cg_cohortId g \<noteq> cid"
proof -
  show "classGroups d2 = filter (\<lambda>g. cg_id g \<notin> set ids) (classGroups d1)"
    by (cases "ids = []") (simp_all add: d2_def deleteClassGroups_def deleteEntriesOfGroups_def)
  then show "\<forall>g \<in> set (classGroups d2). cg_cohortId g \<noteq> cid"
    by (auto simp: ids_def)
  show "scheduleEntries d2 = filter (\<lambda>e. ed_classGroupId (se_data e) \<notin> set ids) (scheduleEntries d1)"
    by (cases "ids = []") (simp_all add: d2_def deleteClassGroups_def deleteEntriesOfGroups_def)
  show "cohorts d2 = cohorts d1" "nextId d2 = nextId d1" "courseRows d2 = courseRows d1"
    "semesters d2 = semesters d1"
    by (simp_all add: d2_def deleteClassGroups_def deleteEntriesOfGroups_def)
qed

lemma createClassGroups_ok:
  assumes "distinct names" "\<forall>g \<in> set (classGroups d). cg_cohortId g \<noteq> cid"
  shows "createClassGroups d cid names =
     Inr (d\<lparr>classGroups := classGroups d @
                     map (\<lambda>(i, n). \<lparr>cg_id = nextId d + i, cg_name = n, cg_cohortId = cid\<rparr>)
                         (zip [0 ..< length names] names),
            nextId := nextId d + length names\<rparr>)"
  using assms by (auto simp: createClassGroups_def)

lemma new_groups_cohort:
  "filter (\<lambda>g. cg_cohortId g = cid)
     (map (\<lambda>(i, n). \<lparr>cg_id = k + i, cg_name = n, cg_cohortId = cid\<rparr>) xs)
   = map (\<lambda>(i, n). \<lparr>cg_id = k + i, cg_name = n, cg_cohortId = cid\<rparr>) xs"
  by (induction xs) auto

lemma refreshCohort_result:
  fixes d :: db and sem :: nat and sheet :: parsedSheetData and le :: "string \<Rightarrow> string \<Rightarrow> bool"
  defines "up \<equiv> upsertCohort d sem (ps_cohortCode sheet)"
  defines "oldIds \<equiv> map cg_id (filter (\<lambda>g. cg_cohortId g = coh_id (fst up)) (classGroups d))"
  defines "names \<equiv> sortNames le (uniqueList (map ev_classGroupName (ps_events sheet)))"
  defines "fresh \<equiv> map (\<lambda>(i, n). \<lparr>cg_id = nextId (snd up) + i, cg_name = n,
                                    cg_cohortId = coh_id (fst up)\<rparr>)
                        (zip [0 ..< length names] names)"
  shows "\<exists>d3. refreshCohort le sem sheet d = Inr (fst up, names, d3) \<and>
           cohorts d3 = cohorts (snd up) \<and>
           classGroups d3 = filter (\<lambda>g. cg_id g \<notin> set oldIds) (classGroups d) @ fresh \<and>
           scheduleEntries d3 =
             filter (\<lambda>e. ed_classGroupId (se_data e) \<notin> set oldIds) (scheduleEntries d) \<and>
           courseRows d3 = courseRows d \<and> semesters d3 = semesters d \<and>
           nextId d3 = nextId (snd up) + length names"
proof -
  obtain cohort d1 where u: "upsertCohort d sem (ps_cohortCode sheet) = (cohort, d1)"
    by (cases "upsertCohort d sem (ps_cohortCode sheet)") auto
  then have up: "fst up = cohort" "snd up = d1" by (simp_all add: up_def)
  note tabs = upsertCohort_tables[OF u]
  define ids where "ids = map cg_id (filter (\<lambda>g. cg_cohortId g = coh_id cohort) (classGroups d1))"
  define d2 where "d2 = (if length ids > 0
       then deleteClassGroups ids (deleteEntriesOfGroups ids d1) else d1)"
  have del: "classGroups d2 = filter (\<lambda>g. cg_id g \<notin> set ids) (classGroups d1)"
    "scheduleEntries d2 = filter (\<lambda>e. ed_classGroupId (se_data e) \<notin> set ids) (scheduleEntries d1)"
    "cohorts d2 = cohorts d1" "nextId d2 = nextId d1"
    "courseRows d2 = courseRows d1" "semesters d2 = semesters d1"
    "\<forall>g \<in> set (classGroups d2). cg_cohortId g \<noteq> coh_id cohort"
    unfolding d2_def ids_def by (rule refresh_deletions)+
  have ids: "ids = oldIds" using tabs by (simp add: oldIds_def up ids_def)
  have dn: "distinct names" by (simp add: names_def distinct_sortNames distinct_uniqueList)
  define new where "new = map (\<lambda>(i, n). \<lparr>cg_id = nextId d2 + i, cg_name = n, cg_cohortId = coh_id cohort\<rparr>)
                         (zip [0 ..< length names] names)"
  have nf: "new = fresh" by (simp add: new_def fresh_def up del(4))
  have cr: "createClassGroups d2 (coh_id cohort) names =
     Inr (d2\<lparr>classGroups := classGroups d2 @ new, nextId := nextId d2 + length names\<rparr>)"
    unfolding new_def using dn del(7) by (rule createClassGroups_ok)
  define d3 where "d3 = (if length names > 0
             then d2\<lparr>classGroups := classGroups d2 @ new, nextId := nextId d2 + length names\<rparr>
             else d2)"
  have res: "refreshCohort le sem sheet d = Inr (cohort, names, d3)"
    unfolding refreshCohort_def u Let_def prod.case names_def[symmetric] ids_def[symmetric]
      d2_def[symmetric] d3_def
    using cr by (cases "names = []") simp_all
  have f0: "names = [] \<Longrightarrow> new = []" by (simp add: new_def)
  have c3: "classGroups d3 = classGroups d2 @ new"
    using f0 by (cases "names = []") (simp_all add: d3_def)
  have o3: "cohorts d3 = cohorts d2" "scheduleEntries d3 = scheduleEntries d2"
    "courseRows d3 = courseRows d2" "semesters d3 = semesters d2"
    "nextId d3 = nextId d2 + length names"
    by (cases "names = []"; simp add: d3_def)+
  show ?thesis
    using res up c3 o3 del tabs ids nf by (intro exI[of _ d3]) simp
qed

text \<open>
  Claim C5. When the cohort of a sheet is already stored, the refresh step of the import
  succeeds and leaves the cohort table as it was (the upsert finds the row and writes
  nothing); it deletes every schedule entry of the class groups the cohort had, deletes
  these class groups, and creates the class groups named by the events of the sheet, so
  that the cohort's class groups afterwards are those of the new parse and no others.
\<close>

theorem reimport_replaces_class_groups:
  "c0 \<in> set (cohorts d) \<and> coh_semesterId c0 = sem \<and> coh_code c0 = ps_cohortCode sheet \<longrightarrow>
   (\<exists>cohort names d3.
      refreshCohort le sem sheet d = Inr (cohort, names, d3) \<and>
      cohort \<in> set (cohorts d) \<and> coh_semesterId cohort = sem \<and>
      coh_code cohort = ps_cohortCode sheet \<and>
      cohorts d3 = cohorts d \<and>
      scheduleEntries d3 =
        filter (\<lambda>e. ed_classGroupId (se_data e) \<notin>
                       cg_id ` {g \<in> set (classGroups d). cg_cohortId g = coh_id cohort})
               (scheduleEntries d) \<and>
      classGroups d3 =
        filter (\<lambda>g. cg_id g \<notin> cg_id ` {g \<in> set (classGroups d). cg_cohortId g = coh_id cohort})
               (classGroups d) @
        map (\<lambda>(i, n). \<lparr>cg_id = nextId d + i, cg_name = n, cg_cohortId = coh_id cohort\<rparr>)
            (zip [0 ..< length names] names) \<and>
      distinct names \<and> set names = ev_classGroupName ` set (ps_events sheet) \<and>
      cg_name ` {g \<in> set (classGroups d3). cg_cohortId g = coh_id cohort} =
        ev_classGroupName ` set (ps_events sheet))"
proof
  assume a: "c0 \<in> set (cohorts d) \<and> coh_semesterId c0 = sem \<and> coh_code c0 = ps_cohortCode sheet"
  then obtain cohort where u: "upsertCohort d sem (ps_cohortCode sheet) = (cohort, d)"
    and c: "cohort \<in> set (cohorts d)" "coh_semesterId cohort = sem"
      "coh_code cohort = ps_cohortCode sheet"
    using upsertCohort_existing[of c0 d sem "ps_cohortCode sheet"] by auto
  define names where "names = sortNames le (uniqueList (map ev_classGroupName (ps_events sheet)))"
  define old where "old = cg_id ` {g \<in> set (classGroups d). cg_cohortId g = coh_id cohort}"
  define fresh where "fresh = map (\<lambda>(i, n). \<lparr>cg_id = nextId d + i, cg_name = n, cg_cohortId = coh_id cohort\<rparr>)
            (zip [0 ..< length names] names)"
  from refreshCohort_result[of le sem sheet d] obtain d3 where
    r: "refreshCohort le sem sheet d = Inr (cohort, names, d3)"
    and t: "cohorts d3 = cohorts d"
      "classGroups d3 = filter (\<lambda>g. cg_id g \<notin> old) (classGroups d) @ fresh"
      "scheduleEntries d3 = filter (\<lambda>e. ed_classGroupId (se_data e) \<notin> old) (scheduleEntries d)"
    unfolding u names_def old_def fresh_def by auto
  have dn: "distinct names" by (simp add: names_def distinct_sortNames distinct_uniqueList)
  have sn: "set names = ev_classGroupName ` set (ps_events sheet)"
    by (simp add: names_def set_sortNames set_uniqueList)
  have kept: "\<And>g. g \<in> set (filter (\<lambda>g. cg_id g \<notin> old) (classGroups d)) \<Longrightarrow> cg_cohortId g \<noteq> coh_id cohort"
    by (auto simp: old_def)
  have fr: "\<And>g. g \<in> set fresh \<Longrightarrow> cg_cohortId g = coh_id cohort"
    by (auto simp: fresh_def)
  have "map cg_name fresh = map snd (zip [0 ..< length names] names)"
    by (simp add: fresh_def case_prod_beta comp_def)
  then have fn: "map cg_name fresh = names" by (simp only: map_snd_zip_upt)
  have "{g \<in> set (classGroups d3). cg_cohortId g = coh_id cohort} = set fresh"
    using kept fr unfolding t(2) by auto
  then have "cg_name ` {g \<in> set (classGroups d3). cg_cohortId g = coh_id cohort} = set (map cg_name fresh)"
    by simp
  then have img: "cg_name ` {g \<in> set (classGroups d3). cg_cohortId g = coh_id cohort} =
        ev_classGroupName ` set (ps_events sheet)"
    unfolding fn sn .
  show "\<exists>cohort names d3.
      refreshCohort le sem sheet d = Inr (cohort, names, d3) \<and>
      cohort \<in> set (cohorts d) \<and> coh_semesterId cohort = sem \<and>
      coh_code cohort = ps_cohortCode sheet \<and>
      cohorts d3 = cohorts d \<and>
      scheduleEntries d3 =
        filter (\<lambda>e. ed_classGroupId (se_data e) \<notin>
                       cg_id ` {g \<in> set (classGroups d). cg_cohortId g = coh_id cohort})
               (scheduleEntries d) \<and>
      classGroups d3 =
        filter (\<lambda>g. cg_id g \<notin> cg_id ` {g \<in> set (classGroups d). cg_cohortId g = coh_id cohort})
               (classGroups d) @
        map (\<lambda>(i, n). \<lparr>cg_id = nextId d + i, cg_name = n, cg_cohortId = coh_id cohort\<rparr>)
            (zip [0 ..< length names] names) \<and>
      distinct names \<and> set names = ev_classGroupName ` set (ps_events sheet) \<and>
      cg_name ` {g \<in> set (classGroups d3). cg_cohortId g = coh_id cohort} =
        ev_classGroupName ` set (ps_events sheet)"
    using r c t dn sn img unfolding old_def fresh_def
    by (intro exI[of _ cohort] exI[of _ names] exI[of _ d3]) simp
qed

theorem reimport_replaces_class_groups_witness:
  "cohortK69 \<in> set (cohorts dbOnce) \<and> coh_semesterId cohortK69 = 2 \<and>
   coh_code cohortK69 = ps_cohortCode sampleSheet \<and>
   (\<exists>cohort names d3.
      refreshCohort leqName 2 sampleSheet dbOnce = Inr (cohort, names, d3) \<and>
      cohorts d3 = cohorts dbOnce \<and>
      set names = ev_classGroupName ` set (ps_events sampleSheet) \<and>
      cg_name ` {g \<in> set (classGroups d3). cg_cohortId g = coh_id cohort} =
        ev_classGroupName ` set (ps_events sampleSheet))"
proof -
  have h: "cohortK69 \<in> set (cohorts dbOnce) \<and> coh_semesterId cohortK69 = 2 \<and>
           coh_code cohortK69 = ps_cohortCode sampleSheet"
    by code_simp
  note inst = reimport_replaces_class_groups[of cohortK69 dbOnce 2 sampleSheet leqName]
  from mp[OF inst h] obtain cohort names d3 where
    "refreshCohort leqName 2 sampleSheet dbOnce = Inr (cohort, names, d3)"
    "cohorts d3 = cohorts dbOnce"
    "set names = ev_classGroupName ` set (ps_events sampleSheet)"
    "cg_name ` {g \<in> set (classGroups d3). cg_cohortId g = coh_id cohort} =
        ev_classGroupName ` set (ps_events sampleSheet)"
    by (elim exE conjE) (rule that; assumption)
  then have "\<exists>cohort names d3.
      refreshCohort leqName 2 sampleSheet dbOnce = Inr (cohort, names, d3) \<and>
      cohorts d3 = cohorts dbOnce \<and>
      set names = ev_classGroupName ` set (ps_events sampleSheet) \<and>
      cg_name ` {g \<in> set (classGroups d3). cg_cohortId g = coh_id cohort} =
        ev_classGroupName ` set (ps_events sampleSheet)"
    by (intro exI[of _ cohort] exI[of _ names] exI[of _ d3] conjI)
  with h show ?thesis by (intro conjI) (elim conjE; assumption)+
qed

section \<open>Proofs: unresolvable events\<close>



lemma updateCourse_key [simp]:
  "crs_code (updateCourse m r) = crs_code r" "crs_id (updateCourse m r) = crs_id r"
  by (cases m; simp add: updateCourse_def)+

lemma createdCourse_key [simp]:
  "crs_code (createdCourse meta i c) = c" "crs_id (createdCourse meta i c) = i"
  by (simp_all add: createdCourse_def)























lemma distinct_cohortCourseCodes: "distinct (cohortCourseCodes sheet)"
  by (simp add: cohortCourseCodes_def foldl_setAdd distinct_uniqueList)
















section \<open>Proofs: decoding the catalog file\<close>


















end
